theory Spec2Isabelle
  imports Main "HOL-Library.Log_Nat" "HOL-Library.Sublist" "HOL-Library.Word"
begin

section \<open>Python values used by the image processor\<close>

text \<open>
  The development embeds \<^verbatim>\<open>Code/Lambda1-image-processor.py\<close>. Python strings are
  \<^typ>\<open>string\<close>, Python integers are \<^typ>\<open>int\<close>, and every exception the code can
  raise is a value of \<open>exn\<close>.
\<close>

datatype exn =
    KeyError string
  | TypeError
  | AttributeError
  | ZeroDivisionError
  | OverflowError
  | ValueError
  | ServiceError string

subsection \<open>Strings\<close>

text \<open>\<^verbatim>\<open>str.lower()\<close> on the ASCII letters; every other character is kept.\<close>

definition lower_char :: "char \<Rightarrow> char" where
  "lower_char c =
     (let n = of_char c :: nat in if 65 \<le> n \<and> n \<le> 90 then char_of (n + 32) else c)"

definition lower :: "string \<Rightarrow> string" where
  "lower s = map lower_char s"

text \<open>\<^verbatim>\<open>s.endswith(ext)\<close>.\<close>

definition endswith :: "string \<Rightarrow> string \<Rightarrow> bool" where
  "endswith s ext = suffix ext s"

text \<open>\<^verbatim>\<open>s.split(sep)\<close> for a one-character separator: never an empty list.\<close>

fun split_on :: "char \<Rightarrow> string \<Rightarrow> string list" where
  "split_on sep [] = [[]]"
| "split_on sep (c # cs) =
     (if c = sep then [] # split_on sep cs
      else (case split_on sep cs of
              [] \<Rightarrow> [[c]]
            | p # ps \<Rightarrow> (c # p) # ps))"

text \<open>\<^verbatim>\<open>sep.join(parts)\<close>.\<close>

fun join :: "string \<Rightarrow> string list \<Rightarrow> string" where
  "join sep [] = []"
| "join sep [p] = p"
| "join sep (p # q # ps) = p @ sep @ join sep (q # ps)"

text \<open>\<^verbatim>\<open>s.rfind(c)\<close>: the last index of \<open>c\<close>, or \<open>-1\<close>.\<close>

definition rfind :: "char \<Rightarrow> string \<Rightarrow> int" where
  "rfind c s =
     (if c \<in> set s then int (length s) - 1 - int (length (takeWhile (\<lambda>x. x \<noteq> c) (rev s)))
      else - 1)"

text \<open>
  \<^verbatim>\<open>os.path.splitext\<close> (the POSIX one: separator \<open>/\<close>, extension separator \<open>.\<close>).
  The loop skips the leading dots of the last path component.
\<close>

function splitext_loop :: "string \<Rightarrow> nat \<Rightarrow> nat \<Rightarrow> string \<times> string" where
  "splitext_loop p filenameIndex dotIndex =
     (if filenameIndex < dotIndex then
        (if take 1 (drop filenameIndex p) \<noteq> ''.'' then (take dotIndex p, drop dotIndex p)
         else splitext_loop p (Suc filenameIndex) dotIndex)
      else (p, []))"
  by pat_completeness auto
termination
  by (relation "measure (\<lambda>(p, i, d). d - i)") auto

declare splitext_loop.simps [simp del]

definition splitext :: "string \<Rightarrow> string \<times> string" where
  "splitext p =
     (let sepIndex = rfind CHR ''/'' p;
          dotIndex = rfind CHR ''.'' p
      in if dotIndex > sepIndex then splitext_loop p (nat (sepIndex + 1)) (nat dotIndex)
         else (p, []))"

text \<open>\<^verbatim>\<open>d.get(k, default)\<close> on a dictionary literal, kept as an association list.\<close>

definition dict_get :: "('k \<times> 'v) list \<Rightarrow> 'k \<Rightarrow> 'v \<Rightarrow> 'v" where
  "dict_get d k dflt = (case map_of d k of None \<Rightarrow> dflt | Some v \<Rightarrow> v)"

section \<open>Python floats\<close>

text \<open>
  A Python float is an IEEE binary64 value. The finite ones are rationals, and every
  operation rounds the exact result to the nearest representable value, ties to even.
\<close>

datatype pyfloat = Finite rat | PosInf | NegInf | NaN

text \<open>
  The exponent of a positive rational: the \<open>e\<close> with \<open>2\<^sup>e \<le> x < 2\<^sup>e\<^sup>+\<^sup>1\<close>, found from the
  bit lengths of numerator and denominator.
\<close>

definition floor_log2 :: "rat \<Rightarrow> int" where
  "floor_log2 x =
     (let (p, q) = quotient_of x; d = bitlen p - bitlen q
      in if 2 powi d \<le> x then d else d - 1)"

text \<open>Rounding to the nearest integer, ties to the even one.\<close>

definition round_half_even :: "rat \<Rightarrow> int" where
  "round_half_even y =
     (let f = \<lfloor>y\<rfloor>; r = y - of_int f
      in if r < 1 / 2 then f
         else if 1 / 2 < r then f + 1
         else if even f then f else f + 1)"

text \<open>
  Rounding to binary64: 53 significant bits, the exponent not below \<open>-1022\<close> (so the
  values below \<open>2\<^sup>-\<^sup>1\<^sup>0\<^sup>2\<^sup>2\<close> are the subnormal multiples of \<open>2\<^sup>-\<^sup>1\<^sup>0\<^sup>7\<^sup>4\<close>), no bound above.
\<close>

definition binary64 :: "rat \<Rightarrow> rat" where
  "binary64 x =
     (if x = 0 then 0
      else (let a = \<bar>x\<bar>;
                e = max (floor_log2 a) (- 1022);
                q = 2 powi (e - 52)
            in sgn x * of_int (round_half_even (a / q)) * q))"

text \<open>
  The float an exact result becomes: a rounded value that needs an exponent above
  \<open>1023\<close> is an infinity.
\<close>

definition to_float :: "rat \<Rightarrow> pyfloat" where
  "to_float x =
     (let r = binary64 x
      in if r = 0 then Finite 0
         else if 1024 \<le> floor_log2 \<bar>r\<bar> then (if 0 < r then PosInf else NegInf)
         else Finite r)"

text \<open>
  \<^verbatim>\<open>a / b\<close> on two integers is correctly rounded and raises instead of returning an
  infinity; so does the conversion of an integer in a mixed operation.
\<close>

definition int_truediv :: "int \<Rightarrow> int \<Rightarrow> exn + pyfloat" where
  "int_truediv a b =
     (if b = 0 then Inl ZeroDivisionError
      else (case to_float (of_int a / of_int b) of
              Finite r \<Rightarrow> Inr (Finite r)
            | _ \<Rightarrow> Inl OverflowError))"

definition float_of_int :: "int \<Rightarrow> exn + pyfloat" where
  "float_of_int n =
     (case to_float (of_int n) of Finite r \<Rightarrow> Inr (Finite r) | _ \<Rightarrow> Inl OverflowError)"

text \<open>
  \<^verbatim>\<open>x / y\<close>, \<^verbatim>\<open>x * y\<close> and \<^verbatim>\<open>x > y\<close> on floats. Division by zero raises; an
  overflow gives an infinity without raising.
\<close>

fun float_div :: "pyfloat \<Rightarrow> pyfloat \<Rightarrow> exn + pyfloat" where
  "float_div x (Finite b) =
     (if b = 0 then Inl ZeroDivisionError
      else (case x of
              Finite a \<Rightarrow> Inr (to_float (a / b))
            | PosInf \<Rightarrow> Inr (if 0 < b then PosInf else NegInf)
            | NegInf \<Rightarrow> Inr (if 0 < b then NegInf else PosInf)
            | NaN \<Rightarrow> Inr NaN))"
| "float_div (Finite a) PosInf = Inr (Finite 0)"
| "float_div (Finite a) NegInf = Inr (Finite 0)"
| "float_div x y = Inr NaN"

fun float_mul :: "pyfloat \<Rightarrow> pyfloat \<Rightarrow> pyfloat" where
  "float_mul (Finite a) (Finite b) = to_float (a * b)"
| "float_mul NaN y = NaN"
| "float_mul x NaN = NaN"
| "float_mul (Finite a) y =
     (if a = 0 then NaN else if (0 < a) = (y = PosInf) then PosInf else NegInf)"
| "float_mul x (Finite b) =
     (if b = 0 then NaN else if (0 < b) = (x = PosInf) then PosInf else NegInf)"
| "float_mul x y = (if x = y then PosInf else NegInf)"

fun float_gt :: "pyfloat \<Rightarrow> pyfloat \<Rightarrow> bool" where
  "float_gt (Finite a) (Finite b) = (b < a)"
| "float_gt NaN y = False"
| "float_gt x NaN = False"
| "float_gt PosInf y = (y \<noteq> PosInf)"
| "float_gt x NegInf = (x \<noteq> NegInf)"
| "float_gt x y = False"

text \<open>\<^verbatim>\<open>int(x)\<close> truncates toward zero and raises on an infinity or a NaN.\<close>

definition int_of_float :: "pyfloat \<Rightarrow> exn + int" where
  "int_of_float x =
     (case x of
        Finite r \<Rightarrow> Inr (if 0 \<le> r then \<lfloor>r\<rfloor> else \<lceil>r\<rceil>)
      | NaN \<Rightarrow> Inl ValueError
      | _ \<Rightarrow> Inl OverflowError)"


section \<open>Aspect-preserving resize\<close>

text \<open>Sequencing of steps that may raise.\<close>

definition bind :: "exn + 'a \<Rightarrow> ('a \<Rightarrow> exn + 'b) \<Rightarrow> exn + 'b" where
  "bind m f = (case m of Inl e \<Rightarrow> Inl e | Inr v \<Rightarrow> f v)"

text \<open>\<^verbatim>\<open>n / y\<close> and \<^verbatim>\<open>n * y\<close> with an integer on the left: the integer is converted first.\<close>

definition int_div_float :: "int \<Rightarrow> pyfloat \<Rightarrow> exn + pyfloat" where
  "int_div_float n y = bind (float_of_int n) (\<lambda>x. float_div x y)"

definition int_mul_float :: "int \<Rightarrow> pyfloat \<Rightarrow> exn + pyfloat" where
  "int_mul_float n y = bind (float_of_int n) (\<lambda>x. Inr (float_mul x y))"

text \<open>
  The size computed by \<^verbatim>\<open>resize_image_content\<close> (lines 153 to 163) from \<open>img.size\<close>
  and the target box, before it is handed to \<^verbatim>\<open>img.resize\<close>.
\<close>

definition new_dimensions :: "int \<times> int \<Rightarrow> int \<Rightarrow> int \<Rightarrow> exn + (int \<times> int)" where
  "new_dimensions img_size width height =
     (let (original_width, original_height) = img_size
      in bind (int_truediv original_width original_height) (\<lambda>aspect_ratio.
         bind (int_truediv width height) (\<lambda>box_ratio.
           if float_gt aspect_ratio box_ratio then
             bind (int_div_float width aspect_ratio) (\<lambda>quotient.
             bind (int_of_float quotient) (\<lambda>new_height. Inr (width, new_height)))
           else
             bind (int_mul_float height aspect_ratio) (\<lambda>product.
             bind (int_of_float product) (\<lambda>new_width. Inr (new_width, height))))))"

text \<open>
  \<^verbatim>\<open>img.resize(size, LANCZOS)\<close> of line 166: Pillow raises \<^verbatim>\<open>ValueError\<close> (height and width
  must be > 0) when an axis of the requested size is below 1, and returns a raster of
  the requested size otherwise. A raster is represented by its size here; the
  resampling of the pixels is Pillow's.
\<close>

definition img_resize :: "int \<times> int \<Rightarrow> exn + (int \<times> int)" where
  "img_resize new_size =
     (let (new_width, new_height) = new_size
      in if new_width < 1 \<or> new_height < 1 then Inl ValueError
         else Inr (new_width, new_height))"

text \<open>\<^verbatim>\<open>resize_image_content\<close>: the size of the raster it returns, or what it raises.\<close>

definition resize_image_content :: "int \<times> int \<Rightarrow> int \<Rightarrow> int \<Rightarrow> exn + (int \<times> int)" where
  "resize_image_content img_size width height =
     bind (new_dimensions img_size width height) img_resize"

section \<open>Key filtering and key derivation\<close>

definition image_extensions :: "string list" where
  "image_extensions = [''.jpg'', ''.jpeg'', ''.png'', ''.gif'', ''.bmp'', ''.webp'']"

definition is_image_file :: "string \<Rightarrow> bool" where
  "is_image_file file_key = list_ex (\<lambda>ext. endswith (lower file_key) ext) image_extensions"

definition generate_destination_key :: "string \<Rightarrow> string" where
  "generate_destination_key source_key =
     (let path_parts = split_on CHR ''/'' source_key;
          filename = last path_parts;
          directory = (if length path_parts > 1 then join ''/'' (butlast path_parts) else []);
          (name, ext) = splitext filename;
          new_filename = ''processed-'' @ name @ ext
      in if directory \<noteq> [] then directory @ ''/'' @ new_filename else new_filename)"

definition content_types :: "(string \<times> string) list" where
  "content_types =
     [(''.jpg'', ''image/jpeg''), (''.jpeg'', ''image/jpeg''), (''.png'', ''image/png''),
      (''.gif'', ''image/gif''), (''.bmp'', ''image/bmp''), (''.webp'', ''image/webp'')]"

definition get_content_type :: "string \<Rightarrow> string" where
  "get_content_type file_key =
     (let ext = snd (splitext (lower file_key))
      in dict_get content_types ext ''application/octet-stream'')"

section \<open>Watermark anchor and encoder dispatch\<close>

text \<open>
  The position table of \<^verbatim>\<open>add_watermark\<close>. The text box \<open>(text_width, text_height)\<close>
  is what the font measured; \<open>//\<close> is Python's floor division, which is \<open>div\<close> on
  \<^typ>\<open>int\<close>.
\<close>

definition anchor_position :: "string \<Rightarrow> int \<Rightarrow> int \<Rightarrow> int \<Rightarrow> int \<Rightarrow> int \<times> int" where
  "anchor_position position img_width img_height text_width text_height =
     (let margin = 20;
          bottom_right = (img_width - text_width - margin, img_height - text_height - margin);
          position_map =
            [(''top-left'', (margin, margin)),
             (''top-right'', (img_width - text_width - margin, margin)),
             (''bottom-left'', (margin, img_height - text_height - margin)),
             (''bottom-right'', bottom_right),
             (''center'', ((img_width - text_width) div 2, (img_height - text_height) div 2))]
      in dict_get position_map position bottom_right)"

text \<open>
  The format table of \<^verbatim>\<open>process_image\<close> and the keyword arguments of the
  \<^verbatim>\<open>save\<close> call. \<open>img.format\<close> is \<open>None\<close> when the decoder did not set it.
\<close>

definition format_map :: "(string option \<times> string) list" where
  "format_map =
     [(Some ''JPEG'', ''JPEG''), (Some ''JPG'', ''JPEG''), (Some ''PNG'', ''PNG''),
      (Some ''GIF'', ''GIF''), (Some ''BMP'', ''BMP''), (Some ''WEBP'', ''WEBP'')]"

definition output_format :: "string option \<Rightarrow> string" where
  "output_format original_format = dict_get format_map original_format ''JPEG''"

record save_args =
  save_format :: string
  save_quality :: "int option"
  save_optimize :: bool

definition encoder_save :: "string option \<Rightarrow> int \<Rightarrow> save_args" where
  "encoder_save original_format quality =
     (let fmt = output_format original_format
      in if fmt = ''JPEG''
         then \<lparr>save_format = fmt, save_quality = Some quality, save_optimize = True\<rparr>
         else \<lparr>save_format = fmt, save_quality = None, save_optimize = True\<rparr>)"

section \<open>Rasters, the mode normaliser and the watermark\<close>

text \<open>
  A raster is its size and its pixels in row order, in one of the modes the normaliser
  tells apart: RGB, RGBA, LA (grey with alpha), L (grey) and P (palette indices, the
  palette giving each index its colour and alpha). Channels are bytes.
\<close>

type_synonym u8 = "8 word"
type_synonym rgb = "u8 \<times> u8 \<times> u8"
type_synonym rgba = "u8 \<times> u8 \<times> u8 \<times> u8"

datatype pixels =
    RGB "rgb list"
  | RGBA "rgba list"
  | LA "(u8 \<times> u8) list"
  | Gray "u8 list"
  | Palette "u8 \<Rightarrow> rgba" "u8 list"

record image =
  im_size :: "int \<times> int"
  im_data :: pixels

text \<open>\<open>img.mode\<close>.\<close>

definition mode :: "image \<Rightarrow> string" where
  "mode img =
     (case im_data img of
        RGB _ \<Rightarrow> ''RGB'' | RGBA _ \<Rightarrow> ''RGBA'' | LA _ \<Rightarrow> ''LA'' | Gray _ \<Rightarrow> ''L'' | Palette _ _ \<Rightarrow> ''P'')"

text \<open>The number of pixels of a size, and \<^verbatim>\<open>Image.new\<close>: pixels of one colour.\<close>

definition pixel_count :: "int \<times> int \<Rightarrow> nat" where
  "pixel_count sz = nat (fst sz * snd sz)"

definition new_rgb :: "int \<times> int \<Rightarrow> rgb \<Rightarrow> rgb list" where
  "new_rgb sz colour = replicate (pixel_count sz) colour"

definition new_rgba :: "int \<times> int \<Rightarrow> rgba \<Rightarrow> rgba list" where
  "new_rgba sz colour = replicate (pixel_count sz) colour"

text \<open>\<^verbatim>\<open>img.convert('RGBA')\<close>.\<close>

fun to_rgba :: "pixels \<Rightarrow> rgba list" where
  "to_rgba (RGB ps) = map (\<lambda>(r, g, b). (r, g, b, 255)) ps"
| "to_rgba (RGBA ps) = ps"
| "to_rgba (LA ps) = map (\<lambda>(l, a). (l, l, l, a)) ps"
| "to_rgba (Gray ps) = map (\<lambda>l. (l, l, l, 255)) ps"
| "to_rgba (Palette palette ps) = map palette ps"

definition convert_rgba :: "image \<Rightarrow> image" where
  "convert_rgba img = img\<lparr>im_data := RGBA (to_rgba (im_data img))\<rparr>"

text \<open>
  The three colour bytes of a stored pixel, which is what a paste into an RGB raster
  copies: an LA pixel is stored as \<open>(l, l, l, a)\<close>.
\<close>

fun rgb_bytes :: "pixels \<Rightarrow> rgb list" where
  "rgb_bytes (RGB ps) = ps"
| "rgb_bytes (RGBA ps) = map (\<lambda>(r, g, b, a). (r, g, b)) ps"
| "rgb_bytes (LA ps) = map (\<lambda>(l, a). (l, l, l)) ps"
| "rgb_bytes (Gray ps) = map (\<lambda>l. (l, l, l)) ps"
| "rgb_bytes (Palette palette ps) = map (\<lambda>i. case palette i of (r, g, b, a) \<Rightarrow> (r, g, b)) ps"

text \<open>\<^verbatim>\<open>img.split()[-1]\<close>.\<close>

fun last_band :: "pixels \<Rightarrow> u8 list" where
  "last_band (RGB ps) = map (\<lambda>(r, g, b). b) ps"
| "last_band (RGBA ps) = map (\<lambda>(r, g, b, a). a) ps"
| "last_band (LA ps) = map (\<lambda>(l, a). a) ps"
| "last_band (Gray ps) = ps"
| "last_band (Palette palette ps) = ps"

text \<open>
  Pillow's blend of two bytes under an 8-bit mask: the rounded quotient by 255 of
  \<open>in1 * (255 - mask) + in2 * mask\<close>.
\<close>

definition div255 :: "nat \<Rightarrow> nat" where
  "div255 a = (let tmp = a + 128 in (tmp div 256 + tmp) div 256)"

definition blend8 :: "u8 \<Rightarrow> u8 \<Rightarrow> u8 \<Rightarrow> u8" where
  "blend8 msk in1 in2 = of_nat (div255 (unat in1 * (255 - unat msk) + unat in2 * unat msk))"

definition blend_rgb :: "u8 \<Rightarrow> rgb \<Rightarrow> rgb \<Rightarrow> rgb" where
  "blend_rgb msk out inp =
     (case (out, inp) of
        ((r1, g1, b1), (r2, g2, b2)) \<Rightarrow> (blend8 msk r1 r2, blend8 msk g1 g2, blend8 msk b1 b2))"

text \<open>
  \<^verbatim>\<open>background.paste(img, mask=...)\<close> into an RGB raster of the same size: without a
  mask the source replaces the background, with a mask each pixel is blended.
\<close>

definition paste :: "rgb list \<Rightarrow> pixels \<Rightarrow> u8 list option \<Rightarrow> rgb list" where
  "paste background src msk =
     (case msk of
        None \<Rightarrow> rgb_bytes src
      | Some m \<Rightarrow> map (\<lambda>(out, inp, a). blend_rgb a out inp) (zip background (zip (rgb_bytes src) m)))"

text \<open>
  The mode block at the head of \<^verbatim>\<open>process_image\<close> (lines 112 to 117).
\<close>

definition normalize_mode :: "image \<Rightarrow> image" where
  "normalize_mode img =
     (if mode img \<in> {''RGBA'', ''LA'', ''P''} then
        (let background = new_rgb (im_size img) (255, 255, 255);
             img1 = (if mode img = ''P'' then convert_rgba img else img);
             msk = (if mode img1 = ''RGBA'' then Some (last_band (im_data img1)) else None)
         in \<lparr>im_size = im_size img, im_data = RGB (paste background (im_data img1) msk)\<rparr>)
      else img)"

text \<open>
  What \<^verbatim>\<open>add_watermark\<close> takes from the font and from Pillow's drawing code: the
  bounding box of the text, the coverage of its glyphs at each pixel index when drawn
  at a position on an overlay of a given size, the pixel a covered overlay pixel
  becomes, and the result of compositing a pixel that is not fully transparent.
\<close>

record renderer =
  textbbox :: "string \<Rightarrow> int \<times> int \<times> int \<times> int"
  text_mask :: "string \<Rightarrow> int \<times> int \<Rightarrow> int \<times> int \<Rightarrow> nat \<Rightarrow> u8"
  fill_pixel :: "u8 \<Rightarrow> rgba \<Rightarrow> int \<Rightarrow> rgba"
  over_pixel :: "rgba \<Rightarrow> rgba \<Rightarrow> rgba"

text \<open>
  \<^verbatim>\<open>draw.text\<close> leaves every pixel the glyphs do not cover as it was;
  \<^verbatim>\<open>Image.alpha_composite\<close> keeps the destination pixel under a fully transparent
  source pixel.
\<close>

definition draw_text :: "renderer \<Rightarrow> rgba list \<Rightarrow> int \<times> int \<Rightarrow> int \<times> int \<Rightarrow> string \<Rightarrow> int \<Rightarrow> rgba list" where
  "draw_text rn overlay sz xy txt opacity =
     map (\<lambda>(i, px). let m = text_mask rn txt xy sz i in if m = 0 then px else fill_pixel rn m px opacity)
       (zip [0..<length overlay] overlay)"

definition alpha_composite :: "renderer \<Rightarrow> rgba list \<Rightarrow> rgba list \<Rightarrow> rgba list" where
  "alpha_composite rn dst src =
     map (\<lambda>(d, s). case s of (r, g, b, a) \<Rightarrow> if a = 0 then d else over_pixel rn d s) (zip dst src)"

text \<open>Lines 190 to 207: the text box and the anchor.\<close>

definition text_position :: "renderer \<Rightarrow> int \<times> int \<Rightarrow> string \<Rightarrow> string \<Rightarrow> int \<times> int" where
  "text_position rn sz watermark_text position =
     (let (x0, y0, x1, y1) = textbbox rn watermark_text;
          text_width = x1 - x0;
          text_height = y1 - y0;
          (img_width, img_height) = sz
      in anchor_position position img_width img_height text_width text_height)"

definition add_watermark ::
  "renderer \<Rightarrow> image \<Rightarrow> string \<Rightarrow> int \<Rightarrow> string \<Rightarrow> pyfloat \<Rightarrow> exn + image" where
  "add_watermark rn img watermark_text opacity position size_ratio =
     (let watermarked = img;
          overlay = new_rgba (im_size watermarked) (0, 0, 0, 0)
      in bind (bind (int_mul_float (fst (im_size watermarked)) size_ratio) int_of_float)
           (\<lambda>font_size.
              let xy = text_position rn (im_size watermarked) watermark_text position;
                  overlay1 = draw_text rn overlay (im_size watermarked) xy watermark_text opacity;
                  watermarked1 =
                    \<lparr>im_size = im_size watermarked,
                     im_data = RGBA (alpha_composite rn (to_rgba (im_data watermarked)) overlay1)\<rparr>
              in if mode watermarked1 = ''RGBA'' then
                   (let background = new_rgb (im_size watermarked1) (255, 255, 255)
                    in Inr \<lparr>im_size = im_size watermarked1,
                             im_data = RGB (paste background (im_data watermarked1)
                                              (Some (last_band (im_data watermarked1))))\<rparr>)
                 else Inr watermarked1))"

text \<open>A renderer whose text covers the first pixel only.\<close>

definition demo_renderer :: renderer where
  "demo_renderer =
     \<lparr>textbbox = (\<lambda>t. (0, 0, 6 * int (length t), 11)),
      text_mask = (\<lambda>t xy sz i. if i = 0 then 255 else 0),
      fill_pixel = (\<lambda>m px opacity. (255, 255, 255, of_int opacity)),
      over_pixel = (\<lambda>d s. s)\<rparr>"

section \<open>The handler\<close>

text \<open>
  The event is the parsed JSON the platform passes in. Subscripting with a string key
  raises \<open>KeyError\<close> on a dictionary without the key and \<open>TypeError\<close> on anything that
  is not a dictionary; a \<open>for\<close> loop walks a list, the keys of a dictionary or the
  characters of a string, and raises \<open>TypeError\<close> on the rest.
\<close>

datatype json =
    JNull
  | JBool bool
  | JNum int
  | JStr string
  | JList "json list"
  | JObj "(string \<times> json) list"

definition subscript :: "json \<Rightarrow> string \<Rightarrow> exn + json" where
  "subscript obj key =
     (case obj of
        JObj kvs \<Rightarrow> (case map_of kvs key of None \<Rightarrow> Inl (KeyError key) | Some v \<Rightarrow> Inr v)
      | _ \<Rightarrow> Inl TypeError)"

fun get_path :: "json \<Rightarrow> string list \<Rightarrow> exn + json" where
  "get_path obj [] = Inr obj"
| "get_path obj (key # keys) =
     (case subscript obj key of Inl e \<Rightarrow> Inl e | Inr v \<Rightarrow> get_path v keys)"


type_synonym bytes = string

text \<open>
  The collaborators of the handler. The object store is a state \<open>'w\<close> that both calls
  may change and that decides whether they fail; \<open>process_image_cfg\<close> is
  \<^verbatim>\<open>process_image\<close> applied to the configuration read at the start of the invocation;
  \<open>exn_str\<close> is \<^verbatim>\<open>str(e)\<close>.
\<close>

record 'w services =
  get_object :: "'w \<Rightarrow> json \<Rightarrow> string \<Rightarrow> (exn + bytes) \<times> 'w"
  put_object :: "'w \<Rightarrow> string \<Rightarrow> string \<Rightarrow> bytes \<Rightarrow> string \<Rightarrow> exn option \<times> 'w"
  process_image_cfg :: "bytes \<Rightarrow> exn + bytes"
  unquote_plus :: "string \<Rightarrow> string"
  exn_str :: "exn \<Rightarrow> string"
  json_dumps :: "string \<Rightarrow> string"
  destination_bucket :: string

datatype s3_call =
    GetObject json string
  | PutObject string string bytes string

datatype log_line =
    Processing string json
  | Skipping string
  | ErrorDownloading string string
  | ErrorProcessing string string
  | Uploaded string
  | ErrorUploading string string
  | ErrorInHandler string

record 'w hstate =
  world :: 'w
  calls :: "s3_call list"
  printed :: "log_line list"

definition say :: "'w hstate \<Rightarrow> log_line \<Rightarrow> 'w hstate" where
  "say st line = st\<lparr>printed := printed st @ [line]\<rparr>"

text \<open>
  The first two statements of the loop body: the bucket name and the decoded object key.
  \<^verbatim>\<open>unquote_plus\<close> starts with \<^verbatim>\<open>string.replace\<close>, which only a string has.
\<close>

definition record_fields :: "'w services \<Rightarrow> json \<Rightarrow> exn + (json \<times> string)" where
  "record_fields sv record =
     (case get_path record [''s3'', ''bucket'', ''name''] of
        Inl e \<Rightarrow> Inl e
      | Inr source_bucket \<Rightarrow>
          (case get_path record [''s3'', ''object'', ''key''] of
             Inl e \<Rightarrow> Inl e
           | Inr (JStr raw_key) \<Rightarrow> Inr (source_bucket, unquote_plus sv raw_key)
           | Inr _ \<Rightarrow> Inl AttributeError))"

text \<open>
  One pass of the loop body. The result is \<open>Some e\<close> when the exception \<open>e\<close> leaves the
  body (no inner \<^verbatim>\<open>try\<close> covers the field accesses), and \<open>None\<close> after a
  \<^verbatim>\<open>continue\<close> or a completed pass.
\<close>

definition handle_record :: "'w services \<Rightarrow> 'w hstate \<Rightarrow> json \<Rightarrow> exn option \<times> 'w hstate" where
  "handle_record sv st record =
     (case record_fields sv record of
        Inl e \<Rightarrow> (Some e, st)
      | Inr (source_bucket, source_key) \<Rightarrow>
          (let st1 = say st (Processing source_key source_bucket)
           in if \<not> is_image_file source_key then (None, say st1 (Skipping source_key))
              else
                (let (response, w2) = get_object sv (world st1) source_bucket source_key;
                     st2 = st1\<lparr>world := w2,
                                calls := calls st1 @ [GetObject source_bucket source_key]\<rparr>
                 in case response of
                      Inl e \<Rightarrow> (None, say st2 (ErrorDownloading source_key (exn_str sv e)))
                    | Inr image_content \<Rightarrow>
                        (case process_image_cfg sv image_content of
                           Inl e \<Rightarrow> (None, say st2 (ErrorProcessing source_key (exn_str sv e)))
                         | Inr processed_image_content \<Rightarrow>
                             (let destination_key = generate_destination_key source_key;
                                  content_type = get_content_type source_key;
                                  (failure, w3) =
                                    put_object sv (world st2) (destination_bucket sv)
                                      destination_key processed_image_content content_type;
                                  st3 = st2\<lparr>world := w3,
                                             calls := calls st2 @
                                               [PutObject (destination_bucket sv) destination_key
                                                  processed_image_content content_type]\<rparr>
                              in case failure of
                                   None \<Rightarrow> (None, say st3 (Uploaded destination_key))
                                 | Some e \<Rightarrow>
                                     (None, say st3
                                        (ErrorUploading destination_key (exn_str sv e))))))))"


record response =
  statusCode :: nat
  body :: string




subsection \<open>Vocabulary for the handler's properties\<close>





definition demo_services :: "nat services" where
  "demo_services =
     \<lparr>get_object = (\<lambda>w b k. (if k = ''bad.jpg'' then Inl (ServiceError ''NoSuchKey'') else Inr ''raw'', Suc w)),
      put_object = (\<lambda>w b k c t. (if k = ''processed-full.gif'' then Some (ServiceError ''AccessDenied'') else None, Suc w)),
      process_image_cfg = (\<lambda>c. if c = ''raw'' then Inr ''done'' else Inl ValueError),
      unquote_plus = (\<lambda>s. s),
      exn_str = (\<lambda>e. case e of KeyError k \<Rightarrow> [CHR 0x27] @ k @ [CHR 0x27] | ServiceError m \<Rightarrow> m | _ \<Rightarrow> ''error''),
      json_dumps = (\<lambda>s. [CHR 0x22] @ s @ [CHR 0x22]),
      destination_bucket = ''resized-image-bucket-9965''\<rparr>"

definition demo_record :: "string \<Rightarrow> json" where
  "demo_record k =
     JObj [(''s3'', JObj [(''bucket'', JObj [(''name'', JStr ''uploads'')]),
                          (''object'', JObj [(''key'', JStr k)])])]"

definition demo_state :: "nat hstate" where
  "demo_state = \<lparr>world = 0, calls = [], printed = []\<rparr>"



subsection \<open>Vocabulary for the key filter\<close>

text \<open>
  The specification's own reading of the filter, written from its words rather than from
  the code: two characters are the same letter when they are equal or are the upper-case
  and lower-case form of one of the 26 ASCII letters, and a key ends with an extension
  ignoring case when its last characters are, one by one, the same letters as the
  extension's.
\<close>

definition ascii_uppercase :: string where
  "ascii_uppercase = ''ABCDEFGHIJKLMNOPQRSTUVWXYZ''"

definition ascii_lowercase :: string where
  "ascii_lowercase = ''abcdefghijklmnopqrstuvwxyz''"

definition same_letter :: "char \<Rightarrow> char \<Rightarrow> bool" where
  "same_letter c d =
     (c = d \<or> (c, d) \<in> set (zip ascii_uppercase ascii_lowercase)
            \<or> (d, c) \<in> set (zip ascii_uppercase ascii_lowercase))"

definition ends_ignoring_case :: "string \<Rightarrow> string \<Rightarrow> bool" where
  "ends_ignoring_case k ext =
     (length ext \<le> length k \<and> list_all2 same_letter (drop (length k - length ext) k) ext)"

section \<open>Properties\<close>

subsection \<open>Watermark anchor\<close>

text \<open>
  C3. For a raster of size \<open>(img_w, img_h)\<close> and a measured text box \<open>(tw, th)\<close> the
  anchor is \<open>(20, 20)\<close> for top-left, \<open>(img_w - tw - 20, 20)\<close> for top-right,
  \<open>(20, img_h - th - 20)\<close> for bottom-left, \<open>(img_w - tw - 20, img_h - th - 20)\<close> for
  bottom-right and the halved differences for center (the quotient is the integer floor
  quotient of the code); every other anchor string gives the bottom-right coordinates,
  and the lookup has no failing branch.
\<close>

theorem anchor_position_table:
  "anchor_position ''top-left'' img_w img_h tw th = (20, 20) \<and>
   anchor_position ''top-right'' img_w img_h tw th = (img_w - tw - 20, 20) \<and>
   anchor_position ''bottom-left'' img_w img_h tw th = (20, img_h - th - 20) \<and>
   anchor_position ''bottom-right'' img_w img_h tw th = (img_w - tw - 20, img_h - th - 20) \<and>
   anchor_position ''center'' img_w img_h tw th = ((img_w - tw) div 2, (img_h - th) div 2) \<and>
   (position \<notin> {''top-left'', ''top-right'', ''bottom-left'', ''bottom-right'', ''center''} \<longrightarrow>
      anchor_position position img_w img_h tw th = (img_w - tw - 20, img_h - th - 20))"
  by (simp add: anchor_position_def dict_get_def)

theorem anchor_position_table_witness:
  "anchor_position ''top-left'' 1000 1000 100 30 = (20, 20) \<and>
   anchor_position ''bottom-right'' 1000 1000 100 30 = (880, 950) \<and>
   anchor_position ''center'' 1000 1000 100 30 = (450, 485) \<and>
   ''middle'' \<notin> {''top-left'', ''top-right'', ''bottom-left'', ''bottom-right'', ''center''} \<and>
   anchor_position ''middle'' 1000 1000 100 30 = (880, 950)"
  using anchor_position_table [of 1000 1000 100 30 "''middle''"] by simp

subsection \<open>Encoder dispatch\<close>

text \<open>
  C5. The encoder re-encodes JPEG/JPG, PNG, GIF, BMP and WEBP originals to the same
  format, sends every other original format (also a missing one) to JPEG, passes the
  quality together with the optimisation flag exactly when the output is JPEG, and
  passes the optimisation flag alone for every other output format.
\<close>

theorem encoder_dispatch:
  "output_format (Some ''JPEG'') = ''JPEG'' \<and>
   output_format (Some ''JPG'') = ''JPEG'' \<and>
   output_format (Some ''PNG'') = ''PNG'' \<and>
   output_format (Some ''GIF'') = ''GIF'' \<and>
   output_format (Some ''BMP'') = ''BMP'' \<and>
   output_format (Some ''WEBP'') = ''WEBP'' \<and>
   (fmt \<notin> {Some ''JPEG'', Some ''JPG'', Some ''PNG'', Some ''GIF'', Some ''BMP'', Some ''WEBP''} \<longrightarrow>
      output_format fmt = ''JPEG'') \<and>
   (output_format fmt = ''JPEG'' \<longrightarrow>
      encoder_save fmt quality =
        \<lparr>save_format = ''JPEG'', save_quality = Some quality, save_optimize = True\<rparr>) \<and>
   (output_format fmt \<noteq> ''JPEG'' \<longrightarrow>
      encoder_save fmt quality =
        \<lparr>save_format = output_format fmt, save_quality = None, save_optimize = True\<rparr>)"
  by (simp add: output_format_def format_map_def dict_get_def encoder_save_def)

theorem encoder_dispatch_witness:
  "Some ''TIFF'' \<notin> {Some ''JPEG'', Some ''JPG'', Some ''PNG'', Some ''GIF'', Some ''BMP'', Some ''WEBP''} \<and>
   output_format (Some ''TIFF'') = ''JPEG'' \<and>
   encoder_save (Some ''TIFF'') 85 =
     \<lparr>save_format = ''JPEG'', save_quality = Some 85, save_optimize = True\<rparr> \<and>
   output_format (Some ''PNG'') \<noteq> ''JPEG'' \<and>
   encoder_save (Some ''PNG'') 85 =
     \<lparr>save_format = ''PNG'', save_quality = None, save_optimize = True\<rparr>"
  using encoder_dispatch [of "Some ''TIFF''" 85] encoder_dispatch [of "Some ''PNG''" 85]
  by simp

subsection \<open>Failure isolation in the handler\<close>



lemma handle_record_escape_state:
  "record_fields sv r = Inl e \<Longrightarrow> handle_record sv st r = (Some e, st)"
  by (simp add: handle_record_def)






subsection \<open>Extension filter\<close>

lemma is_image_file_iff:
  "is_image_file k \<longleftrightarrow> (\<exists>ext \<in> set image_extensions. \<exists>p s. k = p @ s \<and> lower s = ext)"
  by (auto simp: is_image_file_def list_ex_iff endswith_def suffix_def lower_def map_eq_append_conv)

text \<open>
  The code folds the key with \<^verbatim>\<open>lower()\<close> and compares it with lower-case extensions;
  this is the same as comparing letter by letter ignoring case.
\<close>

lemma ascii_uppercase_codes: "ascii_uppercase = map char_of [65 ..< 91 :: nat]"
  by code_simp

lemma ascii_case_table:
  "zip ascii_uppercase ascii_lowercase =
     map (\<lambda>n. (char_of n, char_of (n + 32))) [65 ..< 91 :: nat]"
  by code_simp

lemma char_of_nat_eq: "n < 256 \<Longrightarrow> (char_of (n :: nat) = c) = (of_char c = n)"
  by (auto simp: char_of_eq_iff take_bit_eq_mod)

lemma ascii_uppercase_iff:
  "c \<in> set ascii_uppercase \<longleftrightarrow> 65 \<le> (of_char c :: nat) \<and> (of_char c :: nat) \<le> 90"
proof
  assume "c \<in> set ascii_uppercase"
  then obtain n :: nat where n: "65 \<le> n" "n < 91" "c = char_of n"
    by (auto simp: ascii_uppercase_codes)
  then have "of_char c = n" using char_of_nat_eq [of n c] by simp
  then show "65 \<le> (of_char c :: nat) \<and> (of_char c :: nat) \<le> 90" using n by simp
next
  assume a: "65 \<le> (of_char c :: nat) \<and> (of_char c :: nat) \<le> 90"
  have "c = char_of (of_char c :: nat)" by simp
  moreover have "(of_char c :: nat) \<in> {65 ..< 91}" using a by simp
  then have "(of_char c :: nat) \<in> set [65 ..< 91]" by (simp only: set_upt)
  ultimately show "c \<in> set ascii_uppercase"
    unfolding ascii_uppercase_codes set_map by (rule image_eqI)
qed

lemma ascii_case_table_iff:
  "(c, e) \<in> set (zip ascii_uppercase ascii_lowercase) \<longleftrightarrow>
     65 \<le> (of_char c :: nat) \<and> (of_char c :: nat) \<le> 90 \<and> e = char_of (of_char c + 32 :: nat)"
proof
  assume "(c, e) \<in> set (zip ascii_uppercase ascii_lowercase)"
  then obtain n :: nat where n: "65 \<le> n" "n < 91" "c = char_of n" "e = char_of (n + 32)"
    by (auto simp: ascii_case_table)
  then have "of_char c = n" using char_of_nat_eq [of n c] by simp
  then show "65 \<le> (of_char c :: nat) \<and> (of_char c :: nat) \<le> 90 \<and>
      e = char_of (of_char c + 32 :: nat)"
    using n by simp
next
  assume a: "65 \<le> (of_char c :: nat) \<and> (of_char c :: nat) \<le> 90 \<and>
      e = char_of (of_char c + 32 :: nat)"
  have "(c, e) = (\<lambda>n. (char_of n, char_of (n + 32))) (of_char c :: nat)" using a by simp
  moreover have "(of_char c :: nat) \<in> {65 ..< 91}" using a by simp
  then have "(of_char c :: nat) \<in> set [65 ..< 91]" by (simp only: set_upt)
  ultimately show "(c, e) \<in> set (zip ascii_uppercase ascii_lowercase)"
    unfolding ascii_case_table set_map by (rule image_eqI)
qed

lemma lower_char_same_letter:
  assumes "e \<notin> set ascii_uppercase"
  shows "(lower_char c = e) = same_letter c e"
proof -
  have ne: "(e, c) \<notin> set (zip ascii_uppercase ascii_lowercase)"
    using assms by (auto dest: set_zip_leftD)
  show ?thesis
  proof (cases "c \<in> set ascii_uppercase")
    case True
    then have "c \<noteq> e" using assms by auto
    moreover have "lower_char c = char_of (of_char c + 32 :: nat)"
      using True by (simp add: lower_char_def Let_def ascii_uppercase_iff)
    ultimately show ?thesis
      using True ne by (auto simp: same_letter_def ascii_case_table_iff ascii_uppercase_iff)
  next
    case False
    then have "lower_char c = c" by (auto simp: lower_char_def Let_def ascii_uppercase_iff)
    moreover have "(c, e) \<notin> set (zip ascii_uppercase ascii_lowercase)"
      using False by (auto dest: set_zip_leftD)
    ultimately show ?thesis using ne by (simp add: same_letter_def)
  qed
qed

lemma suffix_iff_drop:
  "suffix xs ys \<longleftrightarrow> length xs \<le> length ys \<and> drop (length ys - length xs) ys = xs"
proof
  assume "suffix xs ys"
  then obtain zs where "ys = zs @ xs" by (auto simp: suffix_def)
  then show "length xs \<le> length ys \<and> drop (length ys - length xs) ys = xs" by simp
next
  assume a: "length xs \<le> length ys \<and> drop (length ys - length xs) ys = xs"
  have "suffix (drop (length ys - length xs) ys) ys" by (rule suffix_drop)
  then show "suffix xs ys" using a by simp
qed

lemma endswith_lower:
  assumes "\<forall>e \<in> set ext. e \<notin> set ascii_uppercase"
  shows "endswith (lower k) ext = ends_ignoring_case k ext"
proof -
  have "(map lower_char s = ext) = list_all2 same_letter s ext" for s
    using assms
  proof (induction s arbitrary: ext)
    case Nil
    then show ?case by auto
  next
    case (Cons c s)
    then show ?case by (cases ext) (auto simp: lower_char_same_letter)
  qed
  then show ?thesis
    by (simp add: endswith_def ends_ignoring_case_def lower_def suffix_iff_drop drop_map)
qed

lemma is_image_file_ignoring_case:
  "is_image_file k \<longleftrightarrow>
     ends_ignoring_case k ''.jpg'' \<or> ends_ignoring_case k ''.jpeg'' \<or>
     ends_ignoring_case k ''.png'' \<or> ends_ignoring_case k ''.gif'' \<or>
     ends_ignoring_case k ''.bmp'' \<or> ends_ignoring_case k ''.webp''"
proof -
  have "\<forall>ext \<in> set image_extensions. \<forall>e \<in> set ext. e \<notin> set ascii_uppercase"
    by code_simp
  then have "\<forall>ext \<in> set image_extensions. endswith (lower k) ext = ends_ignoring_case k ext"
    using endswith_lower by blast
  then have "is_image_file k \<longleftrightarrow> (\<exists>ext \<in> set image_extensions. ends_ignoring_case k ext)"
    by (simp add: is_image_file_def list_ex_iff)
  then show ?thesis by (simp add: image_extensions_def)
qed

text \<open>
  C8. A key passes the filter exactly when it ends, ignoring letter case, with one of
  \<open>.jpg .jpeg .png .gif .bmp .webp\<close>. A record whose key does not pass is skipped
  with no call to the store and no change of it. A record whose key passes is
  processed: the object is read under that key, and when the read and the transform
  succeed the result is uploaded to the destination bucket under the derived key with
  the derived content type; these are all the calls to the store, and no exception
  leaves the loop body.
\<close>

theorem extension_filter:
  "(is_image_file k \<longleftrightarrow>
      ends_ignoring_case k ''.jpg'' \<or> ends_ignoring_case k ''.jpeg'' \<or>
      ends_ignoring_case k ''.png'' \<or> ends_ignoring_case k ''.gif'' \<or>
      ends_ignoring_case k ''.bmp'' \<or> ends_ignoring_case k ''.webp'') \<and>
   (record_fields sv r = Inr (b, k) \<and> \<not> is_image_file k \<longrightarrow>
      handle_record sv st r = (None, say (say st (Processing k b)) (Skipping k)) \<and>
      calls (snd (handle_record sv st r)) = calls st \<and>
      world (snd (handle_record sv st r)) = world st) \<and>
   (record_fields sv r = Inr (b, k) \<and> is_image_file k \<longrightarrow>
      fst (handle_record sv st r) = None \<and>
      calls (snd (handle_record sv st r)) =
        calls st @ GetObject b k #
          (case fst (get_object sv (world st) b k) of
             Inl e \<Rightarrow> []
           | Inr image_content \<Rightarrow>
               (case process_image_cfg sv image_content of
                  Inl e \<Rightarrow> []
                | Inr processed_image_content \<Rightarrow>
                    [PutObject (destination_bucket sv) (generate_destination_key k)
                       processed_image_content (get_content_type k)])))"
proof -
  have skip: "record_fields sv r = Inr (b, k) \<and> \<not> is_image_file k \<longrightarrow>
      handle_record sv st r = (None, say (say st (Processing k b)) (Skipping k)) \<and>
      calls (snd (handle_record sv st r)) = calls st \<and>
      world (snd (handle_record sv st r)) = world st"
    by (simp add: handle_record_def say_def)
  have go: "record_fields sv r = Inr (b, k) \<and> is_image_file k \<longrightarrow>
      fst (handle_record sv st r) = None \<and>
      calls (snd (handle_record sv st r)) =
        calls st @ GetObject b k #
          (case fst (get_object sv (world st) b k) of
             Inl e \<Rightarrow> []
           | Inr image_content \<Rightarrow>
               (case process_image_cfg sv image_content of
                  Inl e \<Rightarrow> []
                | Inr processed_image_content \<Rightarrow>
                    [PutObject (destination_bucket sv) (generate_destination_key k)
                       processed_image_content (get_content_type k)]))"
    by (auto simp: handle_record_def Let_def say_def split: sum.splits prod.splits option.splits)
  show ?thesis using is_image_file_ignoring_case [of k] skip go by blast
qed

theorem extension_filter_witness:
  "record_fields demo_services (demo_record ''scan.TIFF'') = Inr (JStr ''uploads'', ''scan.TIFF'') \<and>
   \<not> is_image_file ''scan.TIFF'' \<and> \<not> is_image_file ''README'' \<and> is_image_file ''photo.JPG'' \<and>
   ends_ignoring_case ''photo.JPG'' ''.jpg'' \<and>
   calls (snd (handle_record demo_services demo_state (demo_record ''scan.TIFF''))) = [] \<and>
   record_fields demo_services (demo_record ''photo.JPG'') = Inr (JStr ''uploads'', ''photo.JPG'') \<and>
   calls (snd (handle_record demo_services demo_state (demo_record ''photo.JPG''))) =
     [GetObject (JStr ''uploads'') ''photo.JPG'',
      PutObject ''resized-image-bucket-9965'' ''processed-photo.JPG'' ''done'' ''image/jpeg'']"
proof -
  have f1: "record_fields demo_services (demo_record ''scan.TIFF'') = Inr (JStr ''uploads'', ''scan.TIFF'')"
    by code_simp
  have f2: "record_fields demo_services (demo_record ''photo.JPG'') = Inr (JStr ''uploads'', ''photo.JPG'')"
    by code_simp
  have n1: "\<not> is_image_file ''scan.TIFF''" by code_simp
  have n2: "\<not> is_image_file ''README''" by code_simp
  have y1: "is_image_file ''photo.JPG''" by code_simp
  have y2: "ends_ignoring_case ''photo.JPG'' ''.jpg''" by code_simp
  have c: "calls demo_state = []" by (simp add: demo_state_def)
  have g: "fst (get_object demo_services (world demo_state) (JStr ''uploads'') ''photo.JPG'') = Inr ''raw''"
    by (simp add: demo_services_def)
  have t: "process_image_cfg demo_services ''raw'' = Inr ''done''"
    by (simp add: demo_services_def)
  have d: "destination_bucket demo_services = ''resized-image-bucket-9965''"
    by (simp add: demo_services_def)
  have k1: "generate_destination_key ''photo.JPG'' = ''processed-photo.JPG''" by code_simp
  have k2: "get_content_type ''photo.JPG'' = ''image/jpeg''" by code_simp
  show ?thesis
    using extension_filter [of "''scan.TIFF''" demo_services "demo_record ''scan.TIFF''"
        "JStr ''uploads''" demo_state]
      extension_filter [of "''photo.JPG''" demo_services "demo_record ''photo.JPG''"
        "JStr ''uploads''" demo_state]
      f1 f2 n1 n2 y1 y2 c g t d k1 k2
    by (simp add: say_def)
qed

subsection \<open>Destination key\<close>

lemma splitext_loop_concat: "fst (splitext_loop p i d) @ snd (splitext_loop p i d) = p"
proof (induction p i d rule: splitext_loop.induct)
  case (1 p i d)
  show ?case
  proof (cases "i < d")
    case True
    show ?thesis
    proof (cases "take 1 (drop i p) \<noteq> ''.''")
      case t: True
      have "splitext_loop p i d = (take d p, drop d p)"
        using True t by (subst splitext_loop.simps) simp
      then show ?thesis by simp
    next
      case f: False
      have "splitext_loop p i d = splitext_loop p (Suc i) d"
        using True f by (subst splitext_loop.simps) simp
      then show ?thesis using 1 True f by simp
    qed
  next
    case False
    have "splitext_loop p i d = (p, [])"
      using False by (subst splitext_loop.simps) simp
    then show ?thesis by simp
  qed
qed

lemma splitext_concat: "fst (splitext p) @ snd (splitext p) = p"
  by (simp add: splitext_def Let_def splitext_loop_concat)

lemma split_on_nonempty: "split_on sep s \<noteq> []"
  by (induction s) (auto split: list.splits)

lemma join_butlast_last:
  "length ps > 1 \<Longrightarrow> join sep (butlast ps) @ sep @ last ps = join sep ps"
  by (induction sep ps rule: join.induct) auto

lemma join_split_on: "join [sep] (split_on sep s) = s"
proof (induction s)
  case Nil
  then show ?case by simp
next
  case (Cons c cs)
  obtain p ps where ps: "split_on sep cs = p # ps"
    using split_on_nonempty [of sep cs] by (cases "split_on sep cs") auto
  show ?case
  proof (cases "c = sep")
    case True
    then show ?thesis using Cons ps by simp
  next
    case False
    then show ?thesis using Cons ps by (cases ps) auto
  qed
qed

lemma split_on_no_sep: "sep \<notin> set s \<Longrightarrow> split_on sep s = [s]"
  by (induction s) auto

lemma split_on_append: "split_on sep (a @ sep # b) = split_on sep a @ split_on sep b"
proof (induction a)
  case Nil
  then show ?case by simp
next
  case (Cons c cs)
  obtain p ps where ps: "split_on sep cs = p # ps"
    using split_on_nonempty [of sep cs] by (cases "split_on sep cs") auto
  show ?case using Cons ps by simp
qed

lemma split_on_parts_no_sep: "p \<in> set (split_on sep s) \<Longrightarrow> sep \<notin> set p"
proof (induction s arbitrary: p)
  case Nil
  then show ?case by simp
next
  case (Cons c cs)
  obtain q qs where qs: "split_on sep cs = q # qs"
    using split_on_nonempty [of sep cs] by (cases "split_on sep cs") auto
  show ?case
  proof (cases "c = sep")
    case True
    then show ?thesis using Cons by auto
  next
    case False
    then show ?thesis using Cons.prems Cons.IH qs by auto
  qed
qed

lemma last_split_on_no_sep: "sep \<notin> set (last (split_on sep s))"
  using split_on_parts_no_sep [of "last (split_on sep s)" sep s] split_on_nonempty [of sep s]
  by simp

lemma generate_destination_key_parts:
  "generate_destination_key k =
     (let ps = split_on CHR ''/'' k; d = join ''/'' (butlast ps)
      in (if length ps > 1 \<and> d \<noteq> [] then d @ ''/'' else []) @ ''processed-'' @ last ps)"
  using splitext_concat [of "last (split_on CHR ''/'' k)"]
  by (auto simp: generate_destination_key_def Let_def split: prod.splits)

lemma source_key_parts:
  "k = (let ps = split_on CHR ''/'' k; d = join ''/'' (butlast ps)
        in (if length ps > 1 then d @ ''/'' else []) @ last ps)"
proof -
  let ?ps = "split_on CHR ''/'' k"
  show ?thesis
  proof (cases "length ?ps > 1")
    case True
    then show ?thesis
      using join_butlast_last [OF True, of "''/''"] join_split_on [of "CHR ''/''" k]
      by (simp add: Let_def)
  next
    case False
    then have "\<exists>p. ?ps = [p]" using split_on_nonempty [of "CHR ''/''" k]
      by (cases ?ps) auto
    then show ?thesis using join_split_on [of "CHR ''/''" k] by (auto simp: Let_def)
  qed
qed

lemma generate_destination_key_twice:
  "generate_destination_key (generate_destination_key k) =
     (let ps = split_on CHR ''/'' k; d = join ''/'' (butlast ps)
      in (if length ps > 1 \<and> d \<noteq> [] then d @ ''/'' else []) @
         ''processed-processed-'' @ last ps)"
proof -
  let ?ps = "split_on CHR ''/'' k"
  let ?d = "join ''/'' (butlast ?ps)"
  let ?f = "''processed-'' @ last ?ps"
  have nf: "CHR ''/'' \<notin> set ?f" using last_split_on_no_sep [of "CHR ''/''" k] by simp
  show ?thesis
  proof (cases "length ?ps > 1 \<and> ?d \<noteq> []")
    case True
    have k1: "generate_destination_key k = ?d @ CHR ''/'' # ?f"
      using True by (simp add: generate_destination_key_parts Let_def)
    have sp: "split_on CHR ''/'' (?d @ CHR ''/'' # ?f) = split_on CHR ''/'' ?d @ [?f]"
      using split_on_append [of "CHR ''/''" ?d ?f] split_on_no_sep [OF nf] by simp
    have ne: "split_on CHR ''/'' ?d \<noteq> []" by (rule split_on_nonempty)
    have j: "join ''/'' (split_on CHR ''/'' ?d) = ?d" by (rule join_split_on)
    show ?thesis
      unfolding k1
      apply (subst generate_destination_key_parts)
      unfolding sp using True ne j
      by (auto simp: Let_def)
  next
    case False
    have k1: "generate_destination_key k = ?f"
      using False by (auto simp: generate_destination_key_parts Let_def)
    show ?thesis
      unfolding k1
      apply (subst generate_destination_key_parts)
      using False split_on_no_sep [OF nf]
      by (auto simp: Let_def)
  qed
qed

text \<open>
  C9. The derived key should be the source key with \<open>processed-\<close> put before the file
  name and the directory path kept. By \<open>generate_destination_key_parts\<close> and
  \<open>source_key_parts\<close> that is what the code returns unless the directory is the empty
  string in front of a single leading slash: there the test \<^verbatim>\<open>if directory:\<close> takes
  the branch for a key without any directory and the slash is lost. Deriving twice
  prepends the prefix twice (\<open>generate_destination_key_twice\<close>).
\<close>

theorem destination_key_leading_slash:
  "generate_destination_key ''/photo.jpg'' = ''processed-photo.jpg'' \<and>
   generate_destination_key ''/photo.jpg'' \<noteq> ''/processed-photo.jpg'' \<and>
   generate_destination_key ''in/photo.jpg'' = ''in/processed-photo.jpg''"
  by code_simp

subsection \<open>Rounding\<close>

text \<open>
  The facts about binary64 rounding the resize properties rest on: the relative error is
  at most \<open>2\<^sup>-\<^sup>5\<^sup>3\<close> in the normal range (\<open>9007199254740992\<close> is \<open>2\<^sup>5\<^sup>3\<close>), and
  integers below \<open>2\<^sup>5\<^sup>3\<close> are exact.
\<close>

lemma pow2_exp_less: "(2::rat) powi m < 2 powi n \<Longrightarrow> m < n"
proof (rule ccontr)
  assume a: "(2::rat) powi m < 2 powi n" and "\<not> m < n"
  then have "n \<le> m" by simp
  then have "(2::rat) powi n \<le> 2 powi m" by (intro power_int_increasing) auto
  with a show False by simp
qed

lemma bitlen_bounds_rat:
  assumes "0 < p"
  shows "(2::rat) powi (bitlen p - 1) \<le> of_int p" and "(of_int p :: rat) < 2 powi bitlen p"
proof -
  have b1: "1 \<le> bitlen p" using assms bitlen_eq_zero_iff [of p] bitlen_nonneg [of p] by linarith
  have lo: "2 ^ nat (bitlen p - 1) \<le> p" and hi: "p < 2 ^ nat (bitlen p)"
    using bitlen_bounds [OF assms] by auto
  have "(of_int (2 ^ nat (bitlen p - 1)) :: rat) \<le> of_int p" using lo by (simp only: of_int_le_iff)
  then show "(2::rat) powi (bitlen p - 1) \<le> of_int p"
    using b1 by (simp add: power_int_def)
  have "(of_int p :: rat) < of_int (2 ^ nat (bitlen p))" using hi by (simp only: of_int_less_iff)
  then show "(of_int p :: rat) < 2 powi bitlen p"
    using b1 by (simp add: power_int_def)
qed

lemma floor_log2_bounds:
  assumes "0 < x"
  shows "2 powi floor_log2 x \<le> x" and "x < 2 powi (floor_log2 x + 1)"
proof -
  obtain p q where pq: "quotient_of x = (p, q)" by (cases "quotient_of x")
  have q: "0 < q" using pq by (rule quotient_of_denom_pos)
  have x: "x = of_int p / of_int q" using pq by (rule quotient_of_div)
  have p: "0 < p" using assms q x by (simp add: zero_less_divide_iff)
  let ?d = "bitlen p - bitlen q"
  have qr: "(0::rat) < of_int q" using q by simp
  have up: "x < 2 powi (?d + 1)"
  proof -
    have "of_int p < (2::rat) powi bitlen p" using bitlen_bounds_rat(2) [OF p] .
    moreover have "(2::rat) powi (bitlen q - 1) \<le> of_int q" using bitlen_bounds_rat(1) [OF q] .
    ultimately have "of_int p * 2 powi (bitlen q - 1) < (2::rat) powi bitlen p * of_int q"
      using qr p by (intro mult_less_le_imp_less) auto
    then have "x * 2 powi (bitlen q - 1) < (2::rat) powi bitlen p"
      using qr by (simp add: x field_simps)
    moreover have "(2::rat) powi bitlen p = 2 powi (?d + 1) * 2 powi (bitlen q - 1)"
      by (simp flip: power_int_add)
    ultimately show ?thesis by simp
  qed
  have lo: "2 powi (?d - 1) < x"
  proof -
    have "(2::rat) powi (bitlen p - 1) \<le> of_int p" using bitlen_bounds_rat(1) [OF p] .
    moreover have "of_int q < (2::rat) powi bitlen q" using bitlen_bounds_rat(2) [OF q] .
    ultimately have "(2::rat) powi (bitlen p - 1) * of_int q < of_int p * 2 powi bitlen q"
      using qr p by (intro mult_le_less_imp_less) auto
    then have "(2::rat) powi (bitlen p - 1) < x * 2 powi bitlen q"
      using qr by (simp add: x field_simps)
    moreover have "(2::rat) powi (bitlen p - 1) = 2 powi (?d - 1) * 2 powi bitlen q"
      by (simp flip: power_int_add)
    ultimately show ?thesis by simp
  qed
  show "2 powi floor_log2 x \<le> x"
    using lo by (auto simp: floor_log2_def pq Let_def)
  show "x < 2 powi (floor_log2 x + 1)"
    using up by (auto simp: floor_log2_def pq Let_def)
qed

lemma floor_log2_unique:
  assumes "0 < x" "2 powi e \<le> x" "x < 2 powi (e + 1)"
  shows "floor_log2 x = e"
proof -
  have "(2::rat) powi floor_log2 x < 2 powi (e + 1)"
    using floor_log2_bounds(1) [OF assms(1)] assms(3) by simp
  then have a: "floor_log2 x < e + 1" by (rule pow2_exp_less)
  have "(2::rat) powi e < 2 powi (floor_log2 x + 1)"
    using floor_log2_bounds(2) [OF assms(1)] assms(2) by simp
  then have "e < floor_log2 x + 1" by (rule pow2_exp_less)
  with a show ?thesis by simp
qed

lemma round_half_even_error: "\<bar>of_int (round_half_even y) - y\<bar> \<le> 1 / 2"
proof -
  have "of_int \<lfloor>y\<rfloor> \<le> y" "y < of_int \<lfloor>y\<rfloor> + 1" by linarith+
  then show ?thesis by (auto simp: round_half_even_def Let_def)
qed

lemma round_half_even_nonneg: "0 \<le> y \<Longrightarrow> 0 \<le> round_half_even y"
  by (auto simp: round_half_even_def Let_def)

lemma round_half_even_of_int: "round_half_even (of_int k) = k"
  by (simp add: round_half_even_def)

lemma binary64_nonneg: "0 \<le> x \<Longrightarrow> 0 \<le> binary64 x"
  by (auto simp: binary64_def Let_def sgn_if intro!: mult_nonneg_nonneg round_half_even_nonneg)

lemma binary64_error:
  assumes "2 powi (- 1022) \<le> x"
  shows "\<bar>binary64 x - x\<bar> \<le> x / 2 ^ 53"
proof -
  have x0: "0 < x" using assms zero_less_power_int [of "2::rat" "- 1022"] by linarith
  let ?e = "floor_log2 x"
  have lo: "2 powi ?e \<le> x" and hi: "x < 2 powi (?e + 1)"
    using floor_log2_bounds [OF x0] by auto
  have "(2::rat) powi (- 1022) < 2 powi (?e + 1)" using assms hi by simp
  then have "- 1022 < ?e + 1" by (rule pow2_exp_less)
  then have e: "max ?e (- 1022) = ?e" by simp
  let ?q = "(2::rat) powi (?e - 52)"
  have q0: "0 < ?q" by simp
  let ?m = "round_half_even (x / ?q)"
  have b: "binary64 x = of_int ?m * ?q"
    using x0 e by (simp add: binary64_def Let_def)
  have "\<bar>of_int ?m * ?q - x\<bar> = \<bar>of_int ?m - x / ?q\<bar> * ?q"
    using q0 by (simp add: abs_mult_pos' [symmetric] field_simps flip: abs_mult_pos)
  also have "\<dots> \<le> 1 / 2 * ?q"
    using round_half_even_error [of "x / ?q"] q0 by (intro mult_right_mono) auto
  also have "1 / 2 * ?q = 2 powi ?e / 2 ^ 53"
  proof -
    have "(2::rat) powi ?e = 2 powi (?e - 52) * 2 powi 52"
      using power_int_add [of "2::rat" "?e - 52" 52] by simp
    then show ?thesis by simp
  qed
  also have "\<dots> \<le> x / 2 ^ 53" using lo by (simp add: divide_right_mono)
  finally show ?thesis using b by simp
qed

lemma binary64_of_int:
  assumes "0 < n" "n < 2 ^ 53"
  shows "binary64 (of_int n) = of_int n"
proof -
  let ?x = "of_int n :: rat"
  have x0: "0 < ?x" using assms by simp
  have x1: "1 \<le> ?x" using assms by simp
  let ?e = "floor_log2 ?x"
  have lo: "2 powi ?e \<le> ?x" and hi: "?x < 2 powi (?e + 1)"
    using floor_log2_bounds [OF x0] by auto
  have "?x < 2 ^ 53" using assms(2) by (metis of_int_less_iff of_int_numeral of_int_power)
  then have "(2::rat) powi ?e < 2 powi 53" using lo by simp
  then have e53: "?e < 53" by (rule pow2_exp_less)
  have "(2::rat) powi 0 < 2 powi (?e + 1)" using x1 hi by simp
  then have "0 < ?e + 1" by (rule pow2_exp_less)
  then have e0: "0 \<le> ?e" by simp
  then have e: "max ?e (- 1022) = ?e" by simp
  define k where "k = nat (52 - ?e)"
  have ek: "?e - 52 = - int k" using e53 by (simp add: k_def)
  have q: "(2::rat) powi (?e - 52) = 1 / 2 ^ k"
    unfolding ek by (simp add: power_int_minus_divide)
  have "?x / (2 powi (?e - 52)) = of_int (n * 2 ^ k)" by (simp add: q)
  then have m: "round_half_even (?x / (2 powi (?e - 52))) = n * 2 ^ k"
    by (simp only: round_half_even_of_int)
  have "binary64 ?x = of_int (n * 2 ^ k) * (1 / 2 ^ k)"
    using x0 by (simp add: binary64_def Let_def e m del: of_int_mult) (simp add: q)
  then show ?thesis by simp
qed

lemma rel_error_bounds:
  fixes r x :: rat
  assumes "\<bar>r - x\<bar> \<le> x / 2 ^ 53"
  shows "x * (9007199254740991 / 9007199254740992) \<le> r"
    and "r \<le> x * (9007199254740993 / 9007199254740992)"
proof -
  have "(2::rat) ^ 53 = 9007199254740992" by simp
  then have "\<bar>r - x\<bar> \<le> x / 9007199254740992" using assms by (simp only:)
  then show "x * (9007199254740991 / 9007199254740992) \<le> r"
    and "r \<le> x * (9007199254740993 / 9007199254740992)"
    by linarith+
qed

lemma to_float_normal:
  assumes "1 / 2 ^ 64 \<le> x" "x \<le> 2 ^ 64"
  shows "\<exists>r. to_float x = Finite r \<and> 0 < r \<and>
           x * (9007199254740991 / 9007199254740992) \<le> r \<and>
           r \<le> x * (9007199254740993 / 9007199254740992)"
proof -
  have x0: "0 < x" using assms(1) by (rule less_le_trans [rotated]) simp
  have "(2::rat) powi (- 1022) \<le> 1 / 2 ^ 64" by (simp add: power_int_minus_divide)
  then have n: "2 powi (- 1022) \<le> x" using assms(1) by simp
  let ?r = "binary64 x"
  have err: "\<bar>?r - x\<bar> \<le> x / 2 ^ 53" using binary64_error [OF n] .
  note b = rel_error_bounds [OF err]
  have rpos: "0 < ?r" using b(1) x0 by linarith
  have "(2::rat) ^ 64 = 18446744073709551616" by simp
  then have "x \<le> 18446744073709551616" using assms(2) by (simp only:)
  then have "?r < 36893488147419103232" using b(2) by linarith
  also have "\<dots> = 2 powi 65" by simp
  finally have "(2::rat) powi floor_log2 ?r < 2 powi 65"
    using floor_log2_bounds(1) [OF rpos] by simp
  then have "floor_log2 ?r < 65" by (rule pow2_exp_less)
  then show ?thesis using rpos b by (simp add: to_float_def Let_def)
qed

lemma of_int_dim_bounds:
  assumes "0 < n" "n < 2 ^ 31"
  shows "(1::rat) \<le> of_int n" and "(of_int n :: rat) \<le> 2147483647"
proof -
  show "(1::rat) \<le> of_int n" using assms(1) by simp
  have "n \<le> 2147483647" using assms(2) by simp
  then show "(of_int n :: rat) \<le> 2147483647" by (metis of_int_le_iff of_int_numeral)
qed

lemma float_of_int_exact:
  assumes "0 < n" "n < 2 ^ 31"
  shows "float_of_int n = Inr (Finite (of_int n))"
proof -
  let ?x = "of_int n :: rat"
  have "n < 2 ^ 53" using assms(2) by simp
  then have b: "binary64 ?x = ?x" using assms(1) by (rule binary64_of_int [rotated])
  have x0: "0 < ?x" using assms(1) by simp
  have "?x < 2 powi 31" using of_int_dim_bounds(2) [OF assms] by simp
  then have "(2::rat) powi floor_log2 ?x < 2 powi 31"
    using floor_log2_bounds(1) [OF x0] by simp
  then have "floor_log2 ?x < 31" by (rule pow2_exp_less)
  then show ?thesis using x0 by (simp add: float_of_int_def to_float_def b Let_def)
qed

lemma int_truediv_pos:
  assumes "0 < a" "a < 2 ^ 31" "0 < b" "b < 2 ^ 31"
  shows "\<exists>r. int_truediv a b = Inr (Finite r) \<and> 0 < r \<and>
           of_int a * (9007199254740991 / 9007199254740992) \<le> r * of_int b \<and>
           r * of_int b \<le> of_int a * (9007199254740993 / 9007199254740992)"
proof -
  let ?a = "of_int a :: rat" and ?b = "of_int b :: rat"
  note A = of_int_dim_bounds [OF assms(1,2)] and B = of_int_dim_bounds [OF assms(3,4)]
  have b0: "0 < ?b" using B(1) by linarith
  have "1 / 2147483647 \<le> ?a / ?b" using A(1) B(2) b0 by (intro frac_le) auto
  then have lo: "1 / 2 ^ 64 \<le> ?a / ?b" by simp
  have "?a / ?b \<le> 2147483647 / 1" using A B b0 by (intro frac_le) auto
  then have hi: "?a / ?b \<le> 2 ^ 64" by simp
  obtain r where r: "to_float (?a / ?b) = Finite r" "0 < r"
    "?a / ?b * (9007199254740991 / 9007199254740992) \<le> r"
    "r \<le> ?a / ?b * (9007199254740993 / 9007199254740992)"
    using to_float_normal [OF lo hi] by blast
  have "?a * (9007199254740991 / 9007199254740992) \<le> r * ?b"
    using r(3) b0 by (simp add: field_simps)
  moreover have "r * ?b \<le> ?a * (9007199254740993 / 9007199254740992)"
    using r(4) b0 by (simp add: field_simps)
  moreover have "int_truediv a b = Inr (Finite r)"
    using assms(3) r(1) by (simp add: int_truediv_def)
  ultimately show ?thesis using r(2) by blast
qed

lemma int_of_float_floor: "0 \<le> r \<Longrightarrow> int_of_float (Finite r) = Inr \<lfloor>r\<rfloor>"
  by (simp add: int_of_float_def)

lemma aspect_range:
  fixes a :: rat
  assumes w: "0 < w" "w < 2 ^ 31" and h: "0 < h" "h < 2 ^ 31"
    and a0: "0 < a"
    and lo: "of_int w * (9007199254740991 / 9007199254740992) \<le> a * of_int h"
    and hi: "a * of_int h \<le> of_int w * (9007199254740993 / 9007199254740992)"
  shows "1 / 4294967296 \<le> a" and "a \<le> 4294967296"
proof -
  note W = of_int_dim_bounds [OF w] and H = of_int_dim_bounds [OF h]
  have "a * 1 \<le> a * of_int h" using a0 H(1) by (intro mult_left_mono) auto
  then show "a \<le> 4294967296" using hi W(2) by linarith
  have "a * of_int h \<le> a * 2147483647" using a0 H(2) by (intro mult_left_mono) auto
  then show "1 / 4294967296 \<le> a" using lo W(1) by linarith
qed

subsection \<open>Resize\<close>

text \<open>
  C1. The claim gives the free axis as the exact floor \<open>\<lfloor>H * w / h\<rfloor>\<close> (or
  \<open>\<lfloor>W * h / w\<rfloor>\<close>). The code computes it in floats, \<^verbatim>\<open>int(height * (w / h))\<close>: for a
  1100 x 1500 raster and the default 800 x 600 box the quotient \<open>1100 / 1500\<close> is rounded
  down, the product comes out just below 440, and the result is 439 x 600 where the
  exact floor is 440. In the other branch a 25 x 11 raster gives 800 x 351 where the
  exact floor is 352.
\<close>

theorem resize_floor_mismatch:
  "resize_image_content (1100, 1500) 800 600 = Inr (439, 600) \<and>
   \<not> (1100 / 1500 > (800 / 600 :: rat)) \<and>
   (\<lfloor>600 * 1100 / 1500 :: rat\<rfloor>, 600 :: int) = (440, 600) \<and>
   resize_image_content (25, 11) 800 600 = Inr (800, 351) \<and>
   25 / 11 > (800 / 600 :: rat) \<and>
   (800 :: int, \<lfloor>800 * 11 / 25 :: rat\<rfloor>) = (800, 352)"
proof -
  have "resize_image_content (1100, 1500) 800 600 = Inr (439, 600)" by code_simp
  moreover have "resize_image_content (25, 11) 800 600 = Inr (800, 351)" by code_simp
  ultimately show ?thesis by simp
qed

text \<open>
  The computed size stays inside the box: at least one axis equals its target and the
  other does not exceed its bound. The free axis is at least 1 when the exact scaled
  length is at least 2 on either orientation.
\<close>

lemma new_dimensions_within_box:
  assumes w: "0 < w" "w < 2 ^ 31" and h: "0 < h" "h < 2 ^ 31"
    and W: "0 < W" "W < 2 ^ 31" and H: "0 < H" "H < 2 ^ 31"
  shows "\<exists>w' h'. new_dimensions (w, h) W H = Inr (w', h') \<and>
           0 \<le> w' \<and> w' \<le> W \<and> 0 \<le> h' \<and> h' \<le> H \<and>
           ((w' = W \<and> h' \<le> H) \<or> (h' = H \<and> w' \<le> W)) \<and>
           (2 * w \<le> W * h \<and> 2 * h \<le> H * w \<longrightarrow> 1 \<le> w' \<and> 1 \<le> h')"
proof -
  let ?W = "of_int W :: rat" and ?H = "of_int H :: rat"
  let ?w = "of_int w :: rat" and ?h = "of_int h :: rat"
  obtain a where a: "int_truediv w h = Inr (Finite a)" "0 < a"
      "?w * (9007199254740991 / 9007199254740992) \<le> a * ?h"
      "a * ?h \<le> ?w * (9007199254740993 / 9007199254740992)"
    using int_truediv_pos [OF w h] by blast
  obtain b where b: "int_truediv W H = Inr (Finite b)" "0 < b"
      "?W * (9007199254740991 / 9007199254740992) \<le> b * ?H"
      "b * ?H \<le> ?W * (9007199254740993 / 9007199254740992)"
    using int_truediv_pos [OF W H] by blast
  note ar = aspect_range [OF w h a(2,3,4)]
  note Wb = of_int_dim_bounds [OF W] and Hb = of_int_dim_bounds [OF H]
  note wb = of_int_dim_bounds [OF w] and hb = of_int_dim_bounds [OF h]
  have H0: "0 < ?H" using Hb(1) by linarith
  have W0: "0 < ?W" using Wb(1) by linarith
  have h0: "0 < ?h" using hb(1) by linarith
  have w0: "0 < ?w" using wb(1) by linarith
  have ah0: "0 < a * ?h" using a(2) h0 by simp
  show ?thesis
  proof (cases "b < a")
    case True
    have "1 / 4294967296 \<le> ?W / a" using Wb(1) ar(2) a(2) by (intro frac_le) auto
    moreover have "(1::rat) / 2 ^ 64 \<le> 1 / 4294967296" by simp
    ultimately have lo: "1 / 2 ^ 64 \<le> ?W / a" by (rule order_trans [rotated])
    have "?W / a \<le> 2147483647 / (1 / 4294967296)" using Wb ar(1) W0 by (intro frac_le) auto
    then have hi: "?W / a \<le> 2 ^ 64" by simp
    obtain r where r: "to_float (?W / a) = Finite r" "0 < r"
        "?W / a * (9007199254740991 / 9007199254740992) \<le> r"
        "r \<le> ?W / a * (9007199254740993 / 9007199254740992)"
      using to_float_normal [OF lo hi] by blast
    have ra: "r * a \<le> ?W * (9007199254740993 / 9007199254740992)"
      using r(4) a(2) by (simp add: field_simps)
    have ra': "?W * (9007199254740991 / 9007199254740992) \<le> r * a"
      using r(3) a(2) by (simp add: field_simps)
    have "b * ?H < a * ?H" using True H0 by (rule mult_strict_right_mono)
    then have aH: "?W * (9007199254740991 / 9007199254740992) < a * ?H" using b(3) by linarith
    have "(r * a) * (9007199254740991 / 9007199254740992)
        < (a * ?H) * (9007199254740993 / 9007199254740992)"
      using ra aH by linarith
    then have "(r * (9007199254740991 / 9007199254740992)) * a
        < (?H * (9007199254740993 / 9007199254740992)) * a"
      by (simp only: mult.assoc mult.commute mult.left_commute)
    then have "r * (9007199254740991 / 9007199254740992)
        < ?H * (9007199254740993 / 9007199254740992)"
      using a(2) by (simp only: mult_less_cancel_right_pos)
    then have "r < ?H + 1" using Hb(2) by linarith
    then have "r < of_int (H + 1)" by simp
    then have "\<lfloor>r\<rfloor> < H + 1" by (simp only: floor_less_iff)
    then have fl: "\<lfloor>r\<rfloor> \<le> H" by simp
    have f0: "0 \<le> \<lfloor>r\<rfloor>" using r(2) by simp
    have f1: "1 \<le> \<lfloor>r\<rfloor>" if big: "2 * w \<le> W * h"
    proof -
      have "(of_int (2 * w) :: rat) \<le> of_int (W * h)" using big by (simp only: of_int_le_iff)
      then have Wh: "2 * ?w \<le> ?W * ?h" by simp
      have "?W * (9007199254740991 / 9007199254740992) * ?h \<le> (r * a) * ?h"
        using ra' h0 by (intro mult_right_mono) auto
      then have "(?W * ?h) * (9007199254740991 / 9007199254740992) \<le> r * (a * ?h)"
        by (simp only: mult.assoc mult.commute mult.left_commute)
      then have "1 * (a * ?h) \<le> r * (a * ?h)" using Wh a(4) w0 by linarith
      then have "1 \<le> r" using ah0 by (simp only: mult_le_cancel_right_pos)
      then show ?thesis by simp
    qed
    have "new_dimensions (w, h) W H = Inr (W, \<lfloor>r\<rfloor>)"
      using True a(1,2) b(1) r(1,2) float_of_int_exact [OF W]
      by (simp add: new_dimensions_def bind_def int_div_float_def int_of_float_def)
    then show ?thesis using fl f0 f1 W by auto
  next
    case False
    then have ab: "a \<le> b" by simp
    have "1 * (1 / 4294967296) \<le> ?H * a" using Hb(1) ar(1) by (intro mult_mono) auto
    then have lo: "1 / 2 ^ 64 \<le> ?H * a" by simp
    have "?H * a \<le> 2147483647 * 4294967296" using Hb ar(2) a(2) by (intro mult_mono) auto
    then have hi: "?H * a \<le> 2 ^ 64" by simp
    obtain r where r: "to_float (?H * a) = Finite r" "0 < r"
        "?H * a * (9007199254740991 / 9007199254740992) \<le> r"
        "r \<le> ?H * a * (9007199254740993 / 9007199254740992)"
      using to_float_normal [OF lo hi] by blast
    have "a * ?H \<le> b * ?H" using ab H0 by (intro mult_right_mono) auto
    then have "?H * a \<le> ?W * (9007199254740993 / 9007199254740992)"
      using b(4) by (simp add: mult.commute)
    then have "r < ?W + 1" using r(4) Wb(2) by linarith
    then have "r < of_int (W + 1)" by simp
    then have "\<lfloor>r\<rfloor> < W + 1" by (simp only: floor_less_iff)
    then have fl: "\<lfloor>r\<rfloor> \<le> W" by simp
    have f0: "0 \<le> \<lfloor>r\<rfloor>" using r(2) by simp
    have f1: "1 \<le> \<lfloor>r\<rfloor>" if big: "2 * h \<le> H * w"
    proof -
      have "(of_int (2 * h) :: rat) \<le> of_int (H * w)" using big by (simp only: of_int_le_iff)
      then have Hw: "2 * ?h \<le> ?H * ?w" by simp
      have "?H * (?w * (9007199254740991 / 9007199254740992)) \<le> ?H * (a * ?h)"
        using a(3) H0 by (intro mult_left_mono) auto
      then have "(?H * ?w) * (9007199254740991 / 9007199254740992) \<le> (?H * a) * ?h"
        by (simp only: mult.assoc mult.commute mult.left_commute)
      then have "(2 * (9007199254740991 / 9007199254740992)) * ?h \<le> (?H * a) * ?h"
        using Hw by linarith
      then have "2 * (9007199254740991 / 9007199254740992) \<le> ?H * a"
        using h0 by (simp only: mult_le_cancel_right_pos)
      then have "1 \<le> r" using r(3) by linarith
      then show ?thesis by simp
    qed
    have "new_dimensions (w, h) W H = Inr (\<lfloor>r\<rfloor>, H)"
      using False a(1,2) b(1) r(1,2) float_of_int_exact [OF H]
      by (simp add: new_dimensions_def bind_def int_mul_float_def int_of_float_def)
    then show ?thesis using fl f0 f1 H by auto
  qed
qed

text \<open>
  When \<open>W * h < w\<close> (that is \<open>W * h / w < 1\<close>: the raster is relatively wider than
  the box by more than a factor \<open>W\<close>) the computed height is 0.
\<close>

lemma new_dimensions_zero_height:
  assumes w: "0 < w" "w < 2 ^ 31" and h: "0 < h" "h < 2 ^ 31"
    and W: "0 < W" "W < 2 ^ 31" and H: "0 < H" "H < 2 ^ 31"
    and thin: "W * h < w"
  shows "new_dimensions (w, h) W H = Inr (W, 0)"
proof -
  let ?W = "of_int W :: rat" and ?H = "of_int H :: rat"
  let ?w = "of_int w :: rat" and ?h = "of_int h :: rat"
  obtain a where a: "int_truediv w h = Inr (Finite a)" "0 < a"
      "?w * (9007199254740991 / 9007199254740992) \<le> a * ?h"
      "a * ?h \<le> ?w * (9007199254740993 / 9007199254740992)"
    using int_truediv_pos [OF w h] by blast
  obtain b where b: "int_truediv W H = Inr (Finite b)" "0 < b"
      "?W * (9007199254740991 / 9007199254740992) \<le> b * ?H"
      "b * ?H \<le> ?W * (9007199254740993 / 9007199254740992)"
    using int_truediv_pos [OF W H] by blast
  note ar = aspect_range [OF w h a(2,3,4)]
  note Wb = of_int_dim_bounds [OF W] and Hb = of_int_dim_bounds [OF H]
  note wb = of_int_dim_bounds [OF w] and hb = of_int_dim_bounds [OF h]
  have h0: "0 < ?h" using hb(1) by linarith
  have W0: "0 < ?W" using Wb(1) by linarith
  have "W * h + 1 \<le> w" using thin by simp
  then have "(of_int (W * h + 1) :: rat) \<le> of_int w" by (simp only: of_int_le_iff)
  then have Wh: "?W * ?h + 1 \<le> ?w" by simp
  have "b * 1 \<le> b * ?H" using b(2) Hb(1) by (intro mult_left_mono) auto
  then have bW: "b \<le> ?W * (9007199254740993 / 9007199254740992)" using b(4) by linarith
  have "b * ?h \<le> ?W * (9007199254740993 / 9007199254740992) * ?h"
    using bW h0 by (intro mult_right_mono) auto
  then have "b * ?h \<le> (?W * ?h) * (9007199254740993 / 9007199254740992)"
    by (simp add: mult.assoc mult.commute mult.left_commute)
  then have "b * ?h < a * ?h" using a(3) Wh wb(2) by linarith
  then have ba: "b < a" using h0 by (simp only: mult_less_cancel_right_pos)
  have "1 / 4294967296 \<le> ?W / a" using Wb(1) ar(2) a(2) by (intro frac_le) auto
  moreover have "(1::rat) / 2 ^ 64 \<le> 1 / 4294967296" by simp
  ultimately have lo: "1 / 2 ^ 64 \<le> ?W / a" by (rule order_trans [rotated])
  have "?W / a \<le> 2147483647 / (1 / 4294967296)" using Wb ar(1) W0 by (intro frac_le) auto
  then have hi: "?W / a \<le> 2 ^ 64" by simp
  obtain r where r: "to_float (?W / a) = Finite r" "0 < r"
      "r \<le> ?W / a * (9007199254740993 / 9007199254740992)"
    using to_float_normal [OF lo hi] by blast
  have ra: "r * a \<le> ?W * (9007199254740993 / 9007199254740992)"
    using r(3) a(2) by (simp add: field_simps)
  have "(r * a) * ?h \<le> ?W * (9007199254740993 / 9007199254740992) * ?h"
    using ra h0 by (intro mult_right_mono) auto
  then have "r * (a * ?h) \<le> (?W * ?h) * (9007199254740993 / 9007199254740992)"
    by (simp add: mult.assoc mult.commute mult.left_commute)
  also have "\<dots> < a * ?h" using a(3) Wh wb(2) by linarith
  finally have "r * (a * ?h) < 1 * (a * ?h)" by simp
  moreover have "0 < a * ?h" using a(2) h0 by simp
  ultimately have r1: "r < 1" by (simp only: mult_less_cancel_right_pos)
  then have fl: "\<lfloor>r\<rfloor> = 0" using r(2) by (simp add: floor_eq_iff)
  show ?thesis
    using ba a(1,2) b(1) r(1,2) fl float_of_int_exact [OF W]
    by (simp add: new_dimensions_def bind_def int_div_float_def int_of_float_def)
qed

text \<open>The resize returns the computed size unless one of its axes is below 1.\<close>

lemma resize_image_content_of_size:
  assumes "new_dimensions s W H = Inr (w', h')"
  shows "resize_image_content s W H =
           (if 1 \<le> w' \<and> 1 \<le> h' then Inr (w', h') else Inl ValueError)"
  using assms by (auto simp: resize_image_content_def bind_def img_resize_def)

text \<open>
  C2. For a raster and a target box with positive dimensions (dimensions are C ints in
  Pillow, hence below \<open>2\<^sup>3\<^sup>1\<close>) a size \<open>(w', h')\<close> is computed, its width is at most
  \<open>W\<close> and its height at most \<open>H\<close>, and at least one axis equals its target dimension
  exactly while the other is less than or equal to its bound. The resize returns a
  raster of exactly that size when both axes are at least 1 and raises \<^verbatim>\<open>ValueError\<close>
  otherwise; it does return when \<open>2 * w \<le> W * h\<close> and \<open>2 * h \<le> H * w\<close>.
\<close>

theorem resize_within_box:
  assumes w: "0 < w" "w < 2 ^ 31" and h: "0 < h" "h < 2 ^ 31"
    and W: "0 < W" "W < 2 ^ 31" and H: "0 < H" "H < 2 ^ 31"
  shows "\<exists>w' h'. new_dimensions (w, h) W H = Inr (w', h') \<and>
           0 \<le> w' \<and> w' \<le> W \<and> 0 \<le> h' \<and> h' \<le> H \<and>
           ((w' = W \<and> h' \<le> H) \<or> (h' = H \<and> w' \<le> W)) \<and>
           resize_image_content (w, h) W H =
             (if 1 \<le> w' \<and> 1 \<le> h' then Inr (w', h') else Inl ValueError) \<and>
           (2 * w \<le> W * h \<and> 2 * h \<le> H * w \<longrightarrow>
              resize_image_content (w, h) W H = Inr (w', h'))"
proof -
  obtain w' h' where d: "new_dimensions (w, h) W H = Inr (w', h')"
      "0 \<le> w'" "w' \<le> W" "0 \<le> h'" "h' \<le> H"
      "(w' = W \<and> h' \<le> H) \<or> (h' = H \<and> w' \<le> W)"
      "2 * w \<le> W * h \<and> 2 * h \<le> H * w \<longrightarrow> 1 \<le> w' \<and> 1 \<le> h'"
    using new_dimensions_within_box [OF w h W H] by blast
  note r = resize_image_content_of_size [OF d(1)]
  have "2 * w \<le> W * h \<and> 2 * h \<le> H * w \<longrightarrow> resize_image_content (w, h) W H = Inr (w', h')"
    using r d(7) by simp
  then show ?thesis using d(1-6) r by blast
qed

theorem resize_within_box_witness:
  "(0::int) < 2000 \<and> (2000::int) < 2 ^ 31 \<and> (0::int) < 1000 \<and> (1000::int) < 2 ^ 31 \<and>
   (0::int) < 800 \<and> (800::int) < 2 ^ 31 \<and> (0::int) < 600 \<and> (600::int) < 2 ^ 31 \<and>
   (2::int) * 2000 \<le> 800 * 1000 \<and> (2::int) * 1000 \<le> 600 * 2000 \<and>
   new_dimensions (2000, 1000) 800 600 = Inr (800, 400) \<and>
   resize_image_content (2000, 1000) 800 600 = Inr (800, 400) \<and>
   (\<exists>w' h'. new_dimensions (2000, 1000) 800 600 = Inr (w', h') \<and>
      0 \<le> w' \<and> w' \<le> 800 \<and> 0 \<le> h' \<and> h' \<le> 600 \<and>
      ((w' = 800 \<and> h' \<le> 600) \<or> (h' = 600 \<and> w' \<le> 800)) \<and>
      resize_image_content (2000, 1000) 800 600 =
        (if 1 \<le> w' \<and> 1 \<le> h' then Inr (w', h') else Inl ValueError) \<and>
      ((2::int) * 2000 \<le> 800 * 1000 \<and> (2::int) * 1000 \<le> 600 * 2000 \<longrightarrow>
         resize_image_content (2000, 1000) 800 600 = Inr (w', h')))"
proof -
  have e: "new_dimensions (2000, 1000) 800 600 = Inr (800, 400)" by code_simp
  have e': "resize_image_content (2000, 1000) 800 600 = Inr (800, 400)" by code_simp
  show ?thesis using resize_within_box [of 2000 1000 800 600] e e' by simp
qed

text \<open>
  The claim C2 says that the resized output has exactly one axis equal to its target
  dimension. An 800 x 600 raster in the 800 x 600 box takes the \<open>else\<close> branch, which
  sets the height to 600 and computes the width 800: both axes equal their targets.
  And a 1 x 2000 raster in the same box has the computed size 0 x 600, on which
  \<^verbatim>\<open>img.resize\<close> raises: there is no resized output.
\<close>

theorem resize_tie_fills_box:
  "resize_image_content (800, 600) 800 600 = Inr (800, 600) \<and>
   new_dimensions (1, 2000) 800 600 = Inr (0, 600) \<and>
   resize_image_content (1, 2000) 800 600 = Inl ValueError"
proof -
  have "resize_image_content (800, 600) 800 600 = Inr (800, 600)" by code_simp
  moreover have "new_dimensions (1, 2000) 800 600 = Inr (0, 600)" by code_simp
  moreover have "resize_image_content (1, 2000) 800 600 = Inl ValueError" by code_simp
  ultimately show ?thesis by simp
qed

text \<open>
  C10. With all four dimensions positive the computed size can have a zero axis:
  whenever \<open>W * h < w\<close> the computed height is 0, as for \<open>w = 10000\<close>, \<open>h = 1\<close> and the
  800 x 600 box. The resize then raises \<^verbatim>\<open>ValueError\<close> in \<^verbatim>\<open>img.resize\<close>: it returns no
  raster.
\<close>

theorem resize_zero_height:
  assumes w: "0 < w" "w < 2 ^ 31" and h: "0 < h" "h < 2 ^ 31"
    and W: "0 < W" "W < 2 ^ 31" and H: "0 < H" "H < 2 ^ 31"
    and thin: "W * h < w"
  shows "new_dimensions (w, h) W H = Inr (W, 0) \<and>
         resize_image_content (w, h) W H = Inl ValueError"
proof -
  have d: "new_dimensions (w, h) W H = Inr (W, 0)"
    using new_dimensions_zero_height [OF w h W H thin] .
  show ?thesis using d resize_image_content_of_size [OF d] by simp
qed

theorem resize_zero_height_witness:
  "(0::int) < 10000 \<and> (10000::int) < 2 ^ 31 \<and> (0::int) < 1 \<and> (1::int) < 2 ^ 31 \<and>
   (0::int) < 800 \<and> (800::int) < 2 ^ 31 \<and> (0::int) < 600 \<and> (600::int) < 2 ^ 31 \<and>
   (800::int) * 1 < 10000 \<and> new_dimensions (10000, 1) 800 600 = Inr (800, 0) \<and>
   resize_image_content (10000, 1) 800 600 = Inl ValueError"
  using resize_zero_height [of 10000 1 800 600] by simp

text \<open>
  The claim C10 says that for such inputs the resize operation returns a raster with a
  zero dimension. At the claim's own example it returns nothing: the only results of
  the resize are sizes with both axes at least 1, and here it raises.
\<close>

theorem resize_zero_axis_raises:
  "resize_image_content (10000, 1) 800 600 = Inl ValueError \<and>
   (\<forall>w' h'. resize_image_content (10000, 1) 800 600 \<noteq> Inr (w', h'))"
proof -
  have "resize_image_content (10000, 1) 800 600 = Inl ValueError" by code_simp
  then show ?thesis by simp
qed

subsection \<open>Mode normaliser\<close>

lemma div255_exact: "n < 256 \<Longrightarrow> div255 (n * 255) = n"
  by (simp add: div255_def Let_def)

lemma unat_u8_less: "unat (x :: u8) < 256"
  using unsigned_less [of x, where ?'a = nat] by simp

lemma blend8_opaque: "blend8 255 bg s = s"
  using div255_exact [OF unat_u8_less [of s]] by (simp add: blend8_def)

lemma blend8_transparent: "blend8 0 bg s = bg"
  using div255_exact [OF unat_u8_less [of bg]] by (simp add: blend8_def)

lemma blend_rgb_opaque: "blend_rgb 255 bg s = s"
  by (cases bg; cases s) (simp add: blend_rgb_def blend8_opaque)

lemma blend_rgb_transparent: "blend_rgb 0 bg s = bg"
  by (cases bg; cases s) (simp add: blend_rgb_def blend8_transparent)

lemma length_draw_text: "length (draw_text rn overlay sz xy txt opacity) = length overlay"
  by (simp add: draw_text_def)

lemma draw_text_uncovered:
  "i < length overlay \<Longrightarrow> text_mask rn txt xy sz i = 0 \<Longrightarrow>
   draw_text rn overlay sz xy txt opacity ! i = overlay ! i"
  by (simp add: draw_text_def)

lemma length_alpha_composite:
  "length (alpha_composite rn dst src) = min (length dst) (length src)"
  by (simp add: alpha_composite_def)

lemma alpha_composite_transparent:
  "i < length dst \<Longrightarrow> i < length src \<Longrightarrow> src ! i = (r, g, b, 0) \<Longrightarrow>
   alpha_composite rn dst src ! i = dst ! i"
  by (simp add: alpha_composite_def)

lemma length_paste_alpha:
  "length (paste bg (RGBA c) (Some (last_band (RGBA c)))) = min (length bg) (length c)"
  by (simp add: paste_def)

lemma paste_alpha_nth:
  "i < length bg \<Longrightarrow> i < length c \<Longrightarrow> c ! i = (r, g, b, a) \<Longrightarrow>
   paste bg (RGBA c) (Some (last_band (RGBA c))) ! i = blend_rgb a (bg ! i) (r, g, b)"
  by (simp add: paste_def)

lemma normalize_mode_passthrough:
  "mode img \<notin> {''RGBA'', ''LA'', ''P''} \<Longrightarrow> normalize_mode img = img"
  by (simp add: normalize_mode_def)

lemma normalize_mode_rgb: "normalize_mode \<lparr>im_size = sz, im_data = RGB ps\<rparr> = \<lparr>im_size = sz, im_data = RGB ps\<rparr>"
  by (simp add: normalize_mode_def mode_def)

lemma normalize_mode_rgba:
  "normalize_mode \<lparr>im_size = sz, im_data = RGBA ps\<rparr> =
     \<lparr>im_size = sz,
      im_data = RGB (paste (new_rgb sz (255, 255, 255)) (RGBA ps) (Some (last_band (RGBA ps))))\<rparr>"
  by (simp add: normalize_mode_def mode_def)

lemma normalize_mode_palette:
  "normalize_mode \<lparr>im_size = sz, im_data = Palette palette ps\<rparr> =
     \<lparr>im_size = sz,
      im_data = RGB (paste (new_rgb sz (255, 255, 255)) (RGBA (map palette ps))
                       (Some (last_band (RGBA (map palette ps)))))\<rparr>"
  by (simp add: normalize_mode_def mode_def convert_rgba_def)

lemma normalize_mode_la:
  "normalize_mode \<lparr>im_size = sz, im_data = LA ps\<rparr> =
     \<lparr>im_size = sz, im_data = RGB (map (\<lambda>(l, a). (l, l, l)) ps)\<rparr>"
  by (simp add: normalize_mode_def mode_def paste_def)

lemma normalize_mode_opaque:
  assumes "(r, g, b, a) \<in> set (to_rgba (im_data (normalize_mode img)))"
  shows "a = 255"
proof (cases "im_data img")
  case (RGB ps)
  then show ?thesis using assms by (auto simp: normalize_mode_def mode_def)
next
  case (RGBA ps)
  then show ?thesis using assms by (auto simp: normalize_mode_def mode_def)
next
  case (LA ps)
  then show ?thesis using assms by (auto simp: normalize_mode_def mode_def)
next
  case (Gray ps)
  then show ?thesis using assms by (auto simp: normalize_mode_def mode_def)
next
  case (Palette palette ps)
  then show ?thesis using assms by (auto simp: normalize_mode_def mode_def convert_rgba_def)
qed

text \<open>
  C6. A raster in mode RGBA, LA or P should come out flattened onto opaque white, and an
  RGB raster unchanged. RGB passes through (\<open>normalize_mode_rgb\<close>), RGBA is blended
  over white under its alpha band (\<open>normalize_mode_rgba\<close>) and P is expanded by its
  palette first (\<open>normalize_mode_palette\<close>). For LA the mask is \<open>None\<close>, because the
  test for the mask names RGBA only: the paste overwrites the white background and the
  alpha is ignored (\<open>normalize_mode_la\<close>). A fully transparent LA pixel of luminance 0
  comes out black, where the same pixel in RGBA comes out white.
\<close>

theorem normalize_mode_la_ignores_alpha:
  "normalize_mode \<lparr>im_size = (1, 1), im_data = LA [(0, 0)]\<rparr> =
     \<lparr>im_size = (1, 1), im_data = RGB [(0, 0, 0)]\<rparr> \<and>
   normalize_mode \<lparr>im_size = (1, 1), im_data = RGBA [(0, 0, 0, 0)]\<rparr> =
     \<lparr>im_size = (1, 1), im_data = RGB [(255, 255, 255)]\<rparr>"
  by (simp add: normalize_mode_la normalize_mode_rgba paste_def new_rgb_def pixel_count_def
      blend_rgb_transparent)

subsection \<open>Watermark\<close>

text \<open>
  C7. When the font size \<^verbatim>\<open>int(width * size_ratio)\<close> can be computed, the compositor
  returns an RGB raster of the input's size with as many pixels. A pixel the glyphs do
  not cover is the input pixel composited over white under its own alpha, whatever the
  text and the opacity are; if the input pixel is opaque it is the input's colour.
\<close>

theorem add_watermark_frame:
  assumes fs: "bind (int_mul_float (fst (im_size img)) size_ratio) int_of_float = Inr font_size"
    and wf: "length (to_rgba (im_data img)) = pixel_count (im_size img)"
  shows "\<exists>out. add_watermark rn img txt opacity position size_ratio = Inr out \<and>
           im_size out = im_size img \<and> mode out = ''RGB'' \<and>
           length (rgb_bytes (im_data out)) = pixel_count (im_size img) \<and>
           (\<forall>i < pixel_count (im_size img).
              text_mask rn txt (text_position rn (im_size img) txt position) (im_size img) i = 0 \<longrightarrow>
              (case to_rgba (im_data img) ! i of
                 (r, g, b, a) \<Rightarrow>
                   rgb_bytes (im_data out) ! i = blend_rgb a (255, 255, 255) (r, g, b) \<and>
                   (a = 255 \<longrightarrow> rgb_bytes (im_data out) ! i = (r, g, b))))"
proof -
  let ?n = "pixel_count (im_size img)"
  let ?xy = "text_position rn (im_size img) txt position"
  let ?overlay = "new_rgba (im_size img) (0, 0, 0, 0)"
  let ?overlay1 = "draw_text rn ?overlay (im_size img) ?xy txt opacity"
  let ?composed = "alpha_composite rn (to_rgba (im_data img)) ?overlay1"
  let ?bg = "new_rgb (im_size img) (255, 255, 255)"
  let ?px = "paste ?bg (RGBA ?composed) (Some (last_band (RGBA ?composed)))"
  let ?out = "\<lparr>im_size = im_size img, im_data = RGB ?px\<rparr>"
  have run: "add_watermark rn img txt opacity position size_ratio = Inr ?out"
    using fs by (simp add: add_watermark_def Let_def bind_def mode_def)
  have lo: "length ?overlay1 = ?n" by (simp add: length_draw_text new_rgba_def)
  have lc: "length ?composed = ?n" by (simp add: length_alpha_composite lo wf)
  have lb: "length ?bg = ?n" by (simp add: new_rgb_def)
  have lp: "length ?px = ?n" using length_paste_alpha [of ?bg ?composed] lc lb by simp
  have px: "case to_rgba (im_data img) ! i of
       (r, g, b, a) \<Rightarrow> ?px ! i = blend_rgb a (255, 255, 255) (r, g, b) \<and>
                        (a = 255 \<longrightarrow> ?px ! i = (r, g, b))"
    if i: "i < ?n" and m: "text_mask rn txt ?xy (im_size img) i = 0" for i
  proof -
    obtain r g b a where d: "to_rgba (im_data img) ! i = (r, g, b, a)"
      by (cases "to_rgba (im_data img) ! i") auto
    have "?overlay1 ! i = ?overlay ! i"
      using i m by (intro draw_text_uncovered) (simp add: new_rgba_def)
    then have o: "?overlay1 ! i = (0, 0, 0, 0)" using i by (simp add: new_rgba_def)
    have c: "?composed ! i = (r, g, b, a)"
      using alpha_composite_transparent [of i "to_rgba (im_data img)" ?overlay1 0 0 0 rn]
        i o d lo wf by simp
    have bg: "?bg ! i = (255, 255, 255)" using i by (simp add: new_rgb_def)
    have "?px ! i = blend_rgb a (255, 255, 255) (r, g, b)"
      using paste_alpha_nth [of i ?bg ?composed r g b a] i c lb lc bg by simp
    then show ?thesis using d by (simp add: blend_rgb_opaque)
  qed
  show ?thesis
    using run lp px by (intro exI [of _ ?out]) (simp add: mode_def)
qed

theorem add_watermark_frame_witness:
  "bind (int_mul_float (fst (im_size \<lparr>im_size = (2, 1), im_data = RGB [(1, 2, 3), (10, 20, 30)]\<rparr>))
      (Finite (1 / 4))) int_of_float = Inr 0 \<and>
   length (to_rgba (im_data \<lparr>im_size = (2, 1), im_data = RGB [(1, 2, 3), (10, 20, 30)]\<rparr>)) =
     pixel_count (im_size \<lparr>im_size = (2, 1), im_data = RGB [(1, 2, 3), (10, 20, 30)]\<rparr>) \<and>
   (\<exists>out. add_watermark demo_renderer \<lparr>im_size = (2, 1), im_data = RGB [(1, 2, 3), (10, 20, 30)]\<rparr>
            ''x'' 200 ''bottom-right'' (Finite (1 / 4)) = Inr out \<and>
          im_size out = (2, 1) \<and> mode out = ''RGB'' \<and>
          length (rgb_bytes (im_data out)) = 2 \<and>
          rgb_bytes (im_data out) ! 1 = (10, 20, 30))"
proof -
  let ?img = "\<lparr>im_size = (2, 1), im_data = RGB [(1, 2, 3), (10, 20, 30)]\<rparr>"
  have fs: "bind (int_mul_float (fst (im_size ?img)) (Finite (1 / 4))) int_of_float = Inr 0"
    by code_simp
  have wf: "length (to_rgba (im_data ?img)) = pixel_count (im_size ?img)"
    by (simp add: pixel_count_def)
  have n: "pixel_count (im_size ?img) = 2" by (simp add: pixel_count_def)
  have m: "text_mask demo_renderer ''x''
      (text_position demo_renderer (im_size ?img) ''x'' ''bottom-right'') (im_size ?img) 1 = 0"
    by (simp add: demo_renderer_def)
  obtain out where out:
    "add_watermark demo_renderer ?img ''x'' 200 ''bottom-right'' (Finite (1 / 4)) = Inr out"
    "im_size out = im_size ?img" "mode out = ''RGB''"
    "length (rgb_bytes (im_data out)) = pixel_count (im_size ?img)"
    "\<forall>i < pixel_count (im_size ?img).
       text_mask demo_renderer ''x''
         (text_position demo_renderer (im_size ?img) ''x'' ''bottom-right'') (im_size ?img) i = 0 \<longrightarrow>
       (case to_rgba (im_data ?img) ! i of
          (r, g, b, a) \<Rightarrow>
            rgb_bytes (im_data out) ! i = blend_rgb a (255, 255, 255) (r, g, b) \<and>
            (a = 255 \<longrightarrow> rgb_bytes (im_data out) ! i = (r, g, b)))"
    using add_watermark_frame [OF fs wf, of demo_renderer "''x''" 200 "''bottom-right''"]
    by blast
  have "rgb_bytes (im_data out) ! 1 = (10, 20, 30)"
    using out(5) [rule_format, of 1] n m by (simp add: blend_rgb_opaque)
  then show ?thesis using fs wf out(1-4) n by auto
qed

text \<open>
  The claim C7 as stated, for every input raster and every size ratio, fails: a
  transparent pixel outside the glyphs is turned white by the final flatten, and an
  infinite size ratio makes \<^verbatim>\<open>int\<close> raise before anything is drawn.
\<close>

lemma add_watermark_run:
  "bind (int_mul_float (fst (im_size img)) size_ratio) int_of_float = Inr font_size \<Longrightarrow>
   add_watermark rn img txt opacity position size_ratio =
     Inr \<lparr>im_size = im_size img,
          im_data = RGB
            (let composed = alpha_composite rn (to_rgba (im_data img))
                   (draw_text rn (new_rgba (im_size img) (0, 0, 0, 0)) (im_size img)
                      (text_position rn (im_size img) txt position) txt opacity)
             in paste (new_rgb (im_size img) (255, 255, 255)) (RGBA composed)
                  (Some (last_band (RGBA composed))))\<rparr>"
  by (simp add: add_watermark_def Let_def bind_def mode_def)

lemma add_watermark_raises:
  "bind (int_mul_float (fst (im_size img)) size_ratio) int_of_float = Inl e \<Longrightarrow>
   add_watermark rn img txt opacity position size_ratio = Inl e"
  by (simp add: add_watermark_def Let_def bind_def)

text \<open>Every infinite or NaN size ratio makes the compositor raise, on every raster.\<close>

lemma add_watermark_nonfinite_raises:
  assumes "size_ratio = PosInf \<or> size_ratio = NegInf \<or> size_ratio = NaN"
  shows "\<exists>e. add_watermark rn img txt opacity position size_ratio = Inl e"
proof (cases "float_of_int (fst (im_size img))")
  case (Inl e)
  then show ?thesis by (simp add: add_watermark_def Let_def bind_def int_mul_float_def)
next
  case (Inr x)
  then have "\<exists>r. x = Finite r"
    by (cases "to_float (of_int (fst (im_size img)))") (auto simp: float_of_int_def)
  then obtain r where x: "x = Finite r" by blast
  have "\<exists>e. int_of_float (float_mul (Finite r) size_ratio) = Inl e"
    using assms by (auto simp: int_of_float_def)
  then show ?thesis
    using Inr x by (auto simp: add_watermark_def Let_def bind_def int_mul_float_def)
qed

theorem add_watermark_flattens_transparency:
  "add_watermark demo_renderer \<lparr>im_size = (2, 1), im_data = RGBA [(1, 2, 3, 255), (10, 20, 30, 0)]\<rparr>
     ''x'' 200 ''bottom-right'' (Finite (1 / 4)) =
     Inr \<lparr>im_size = (2, 1), im_data = RGB [(255, 255, 255), (255, 255, 255)]\<rparr> \<and>
   text_mask demo_renderer ''x'' (text_position demo_renderer (2, 1) ''x'' ''bottom-right'') (2, 1) 1 = 0 \<and>
   add_watermark demo_renderer \<lparr>im_size = (2, 1), im_data = RGB [(1, 2, 3), (10, 20, 30)]\<rparr>
     ''x'' 200 ''bottom-right'' PosInf = Inl OverflowError"
proof -
  let ?img = "\<lparr>im_size = (2, 1), im_data = RGBA [(1, 2, 3, 255), (10, 20, 30, 0)]\<rparr>"
  let ?xy = "text_position demo_renderer (2, 1) ''x'' ''bottom-right''"
  have fs: "bind (int_mul_float (fst (im_size ?img)) (Finite (1 / 4))) int_of_float = Inr 0"
    by code_simp
  have n: "pixel_count (2, 1) = Suc (Suc 0)" by (simp add: pixel_count_def)
  have idx: "[0..<Suc (Suc 0)] = [0, Suc 0]" by (simp add: upt_rec)
  have overlay1: "draw_text demo_renderer (new_rgba (2, 1) (0, 0, 0, 0)) (2, 1) ?xy ''x'' 200 =
      [(255, 255, 255, 200), (0, 0, 0, 0)]"
    by (simp add: draw_text_def new_rgba_def n idx demo_renderer_def)
  have composed: "alpha_composite demo_renderer [(1, 2, 3, 255), (10, 20, 30, 0)]
      [(255, 255, 255, 200), (0, 0, 0, 0)] = [(255, 255, 255, 200), (10, 20, 30, 0)]"
    by (simp add: alpha_composite_def demo_renderer_def)
  have b: "blend8 200 255 255 = 255" by (simp add: blend8_def div255_def)
  have flat: "paste (new_rgb (2, 1) (255, 255, 255)) (RGBA [(255, 255, 255, 200), (10, 20, 30, 0)])
      (Some [200, 0]) = [(255, 255, 255), (255, 255, 255)]"
    by (simp add: paste_def new_rgb_def n blend_rgb_def b blend8_transparent)
  have one: "add_watermark demo_renderer ?img ''x'' 200 ''bottom-right'' (Finite (1 / 4)) =
      Inr \<lparr>im_size = (2, 1), im_data = RGB [(255, 255, 255), (255, 255, 255)]\<rparr>"
    unfolding add_watermark_run [OF fs] by (simp add: overlay1 composed flat)
  have two: "text_mask demo_renderer ''x'' ?xy (2, 1) 1 = 0"
    by (simp add: demo_renderer_def)
  have inf: "bind (int_mul_float
      (fst (im_size \<lparr>im_size = (2, 1), im_data = RGB [(1, 2, 3), (10, 20, 30)]\<rparr>)) PosInf)
      int_of_float = Inl OverflowError"
    by code_simp
  note three = add_watermark_raises [OF inf, of demo_renderer "''x''" 200 "''bottom-right''"]
  show ?thesis using one two three by simp
qed

end
